theory Spec2Isabelle
  imports Main
begin

section \<open>JavaScript strings and numbers\<close>

text \<open>
  A JavaScript string is a sequence of UTF-16 code units; a code unit is modelled as a
  natural number. \<open>js\<close> turns an ASCII literal into its code units.
\<close>

type_synonym jsstring = "nat list"

definition js :: "string \<Rightarrow> jsstring" where
  "js s = map of_char s"

text \<open>The code units that \<^verbatim>\<open>String.prototype.trim\<close> removes (WhiteSpace and LineTerminator).\<close>

definition isWhiteSpace :: "nat \<Rightarrow> bool" where
  "isWhiteSpace u \<longleftrightarrow>
     (9 \<le> u \<and> u \<le> 13) \<or> u = 32 \<or> u = 160 \<or> u = 5760 \<or> (8192 \<le> u \<and> u \<le> 8202) \<or>
     u = 8232 \<or> u = 8233 \<or> u = 8239 \<or> u = 8287 \<or> u = 12288 \<or> u = 65279"

definition trim :: "jsstring \<Rightarrow> jsstring" where
  "trim s = rev (dropWhile isWhiteSpace (rev (dropWhile isWhiteSpace s)))"

definition startsWith :: "jsstring \<Rightarrow> jsstring \<Rightarrow> bool" where
  "startsWith s p \<longleftrightarrow> take (length p) s = p"

fun includesStr :: "jsstring \<Rightarrow> jsstring \<Rightarrow> bool" where
  "includesStr [] p = (p = [])"
| "includesStr (c # cs) p = (startsWith (c # cs) p \<or> includesStr cs p)"

text \<open>
  \<^verbatim>\<open>s.split(sep)\<close> for a non-empty separator: cut at every occurrence of \<open>sep\<close>,
  scanning from the left; the pieces between the cuts, empty ones included.
\<close>

fun splitNonEmpty :: "jsstring \<Rightarrow> jsstring \<Rightarrow> jsstring list" where
  "splitNonEmpty sep [] = [[]]"
| "splitNonEmpty sep (c # cs) =
     (if startsWith (c # cs) sep then [] # splitNonEmpty sep (drop (length sep - 1) cs)
      else (case splitNonEmpty sep cs of
              [] \<Rightarrow> [[c]]
            | p # ps \<Rightarrow> (c # p) # ps))"

definition split :: "jsstring \<Rightarrow> jsstring \<Rightarrow> jsstring list" where
  "split s sep = (if sep = [] then map (\<lambda>c. [c]) s else splitNonEmpty sep s)"

text \<open>\<^verbatim>\<open>xs.join(sep)\<close> on an array of strings.\<close>

fun join :: "jsstring \<Rightarrow> jsstring list \<Rightarrow> jsstring" where
  "join sep [] = []"
| "join sep [x] = x"
| "join sep (x # y # ys) = x @ sep @ join sep (y # ys)"

text \<open>
  A JavaScript number as \<^verbatim>\<open>parseInt\<close> returns it: NaN, an infinity, or a finite double
  with an integral value, kept as that integer. A statistics field is a number with an integral
  value as well and is kept as an \<open>int\<close>.
\<close>

datatype jsnum = NaN | Num int | PosInfinity | NegInfinity

text \<open>
  The Number value of a natural number: below \<open>2^53\<close> it is the number itself; above, the
  53 leading bits are kept and the rest is rounded to nearest, ties to the even significand;
  from \<open>2^1024\<close> on the result is infinite (\<open>None\<close>). \<open>excessBits\<close> counts the bits that
  do not fit into the significand.
\<close>

fun excessBits :: "nat \<Rightarrow> nat" where
  "excessBits m = (if m < 9007199254740992 then 0 else Suc (excessBits (m div 2)))"

definition roundToDouble :: "nat \<Rightarrow> nat option" where
  "roundToDouble m =
     (let k = excessBits m;
          q = m div 2 ^ k;
          r = m mod 2 ^ k;
          significand = (if 2 * r > 2 ^ k \<or> (2 * r = 2 ^ k \<and> odd q) then q + 1 else q);
          v = significand * 2 ^ k
      in if v \<ge> 2 ^ 1024 then None else Some v)"

definition digitValue :: "nat \<Rightarrow> nat option" where
  "digitValue u =
     (if 48 \<le> u \<and> u \<le> 57 then Some (u - 48)
      else if 97 \<le> u \<and> u \<le> 122 then Some (u - 87)
      else if 65 \<le> u \<and> u \<le> 90 then Some (u - 55)
      else None)"

definition isRadixDigit :: "nat \<Rightarrow> nat \<Rightarrow> bool" where
  "isRadixDigit r u = (case digitValue u of None \<Rightarrow> False | Some d \<Rightarrow> d < r)"

definition radixValue :: "nat \<Rightarrow> jsstring \<Rightarrow> nat" where
  "radixValue r ds = foldl (\<lambda>a u. a * r + (case digitValue u of None \<Rightarrow> 0 | Some d \<Rightarrow> d)) 0 ds"

text \<open>
  \<^verbatim>\<open>parseInt(s)\<close> with no radix argument: leading white space is skipped, one sign
  is read, a \<^verbatim>\<open>0x\<close>/\<^verbatim>\<open>0X\<close> prefix selects radix 16, and the longest prefix
  of digits is the value, rounded to a double; no digit at all gives NaN. Whatever follows
  the digits is ignored.
\<close>

definition parseInt :: "jsstring \<Rightarrow> jsnum" where
  "parseInt s =
     (let s1 = dropWhile isWhiteSpace s;
          neg = (s1 \<noteq> [] \<and> hd s1 = 45);
          s2 = (if s1 \<noteq> [] \<and> (hd s1 = 43 \<or> hd s1 = 45) then tl s1 else s1);
          hex = (startsWith s2 (js ''0x'') \<or> startsWith s2 (js ''0X''));
          r = (if hex then 16 else 10);
          s3 = (if hex then drop 2 s2 else s2);
          z = takeWhile (isRadixDigit r) s3
      in if z = [] then NaN
         else (case roundToDouble (radixValue r z) of
                 None \<Rightarrow> if neg then NegInfinity else PosInfinity
               | Some v \<Rightarrow> Num (if neg then - int v else int v)))"

text \<open>
  The relational operators, with a finite integral number on the left: every comparison with NaN
  is false, \<^verbatim>\<open>!==\<close> with NaN is true, and the infinities lie beyond every finite number.
\<close>

fun jsLess :: "int \<Rightarrow> jsnum \<Rightarrow> bool" where
  "jsLess a NaN = False"
| "jsLess a (Num b) = (a < b)"
| "jsLess a PosInfinity = True"
| "jsLess a NegInfinity = False"

fun jsGreater :: "int \<Rightarrow> jsnum \<Rightarrow> bool" where
  "jsGreater a NaN = False"
| "jsGreater a (Num b) = (a > b)"
| "jsGreater a PosInfinity = False"
| "jsGreater a NegInfinity = True"

fun jsLessEq :: "int \<Rightarrow> jsnum \<Rightarrow> bool" where
  "jsLessEq a NaN = False"
| "jsLessEq a (Num b) = (a \<le> b)"
| "jsLessEq a PosInfinity = True"
| "jsLessEq a NegInfinity = False"

fun jsGreaterEq :: "int \<Rightarrow> jsnum \<Rightarrow> bool" where
  "jsGreaterEq a NaN = False"
| "jsGreaterEq a (Num b) = (a \<ge> b)"
| "jsGreaterEq a PosInfinity = False"
| "jsGreaterEq a NegInfinity = True"

fun jsStrictNotEq :: "int \<Rightarrow> jsnum \<Rightarrow> bool" where
  "jsStrictNotEq a NaN = True"
| "jsStrictNotEq a (Num b) = (a \<noteq> b)"
| "jsStrictNotEq a PosInfinity = True"
| "jsStrictNotEq a NegInfinity = True"

section \<open>Statistics and the condition evaluator (hookManager.ts)\<close>

record BatchProcessingStats =
  totalFiles :: int
  processedFiles :: int
  successfulFiles :: int
  failedFiles :: int
  modifiedFiles :: int
  errorCount :: int
  startTime :: int
  endTime :: "int option"

definition getVariableValue :: "jsstring option \<Rightarrow> BatchProcessingStats \<Rightarrow> int" where
  "getVariableValue varName stats =
     (if varName = Some (js ''totalFiles'') then totalFiles stats
      else if varName = Some (js ''processedFiles'') then processedFiles stats
      else if varName = Some (js ''successfulFiles'') then successfulFiles stats
      else if varName = Some (js ''failedFiles'') then failedFiles stats
      else if varName = Some (js ''modifiedFiles'') then modifiedFiles stats
      else if varName = Some (js ''errorCount'') then errorCount stats
      else 0)"

text \<open>
  \<^verbatim>\<open>const [varName, value] = cond.split(op).map(s => s.trim())\<close>: the first two
  pieces, \<^verbatim>\<open>undefined\<close> (\<open>None\<close>) where the array is shorter.
  \<^verbatim>\<open>parseInt(undefined)\<close> is NaN.
\<close>

definition firstPiece :: "jsstring list \<Rightarrow> jsstring option" where
  "firstPiece ps = (case ps of [] \<Rightarrow> None | v # _ \<Rightarrow> Some v)"

definition secondPiece :: "jsstring list \<Rightarrow> jsstring option" where
  "secondPiece ps = (case ps of _ # v # _ \<Rightarrow> Some v | _ \<Rightarrow> None)"

definition parseIntArg :: "jsstring option \<Rightarrow> jsnum" where
  "parseIntArg v = (case v of None \<Rightarrow> NaN | Some s \<Rightarrow> parseInt s)"

definition operands :: "jsstring \<Rightarrow> jsstring \<Rightarrow> jsstring option \<times> jsstring option" where
  "operands cond opr = (let ps = map trim (split cond opr) in (firstPiece ps, secondPiece ps))"

text \<open>
  One pass of the loop body of \<^verbatim>\<open>evaluateCondition\<close> over a clause: \<open>False\<close>
  is the early \<^verbatim>\<open>return false\<close>, \<open>True\<close> lets the loop go on. The branches are
  tried in the order of the source: \<^verbatim>\<open>>=\<close>, \<^verbatim>\<open><=\<close>, \<^verbatim>\<open>>\<close>,
  \<^verbatim>\<open><\<close>, \<^verbatim>\<open>==\<close>; a clause with none of them falls through.
\<close>

definition evalClause :: "jsstring \<Rightarrow> BatchProcessingStats \<Rightarrow> bool" where
  "evalClause cond stats =
     (if includesStr cond (js ''>='') then
        (case operands cond (js ''>='') of (varName, val) \<Rightarrow>
           \<not> jsLess (getVariableValue varName stats) (parseIntArg val))
      else if includesStr cond (js ''<='') then
        (case operands cond (js ''<='') of (varName, val) \<Rightarrow>
           \<not> jsGreater (getVariableValue varName stats) (parseIntArg val))
      else if includesStr cond (js ''>'') then
        (case operands cond (js ''>'') of (varName, val) \<Rightarrow>
           \<not> jsLessEq (getVariableValue varName stats) (parseIntArg val))
      else if includesStr cond (js ''<'') then
        (case operands cond (js ''<'') of (varName, val) \<Rightarrow>
           \<not> jsGreaterEq (getVariableValue varName stats) (parseIntArg val))
      else if includesStr cond (js ''=='') then
        (case operands cond (js ''=='') of (varName, val) \<Rightarrow>
           \<not> jsStrictNotEq (getVariableValue varName stats) (parseIntArg val))
      else True)"

fun evalClauses :: "jsstring list \<Rightarrow> BatchProcessingStats \<Rightarrow> bool" where
  "evalClauses [] stats = True"
| "evalClauses (cond # conds) stats =
     (if evalClause cond stats then evalClauses conds stats else False)"

text \<open>
  \<^verbatim>\<open>evaluateCondition\<close>. Every operation of the \<^verbatim>\<open>try\<close> block (split, trim,
  includes, parseInt, the comparisons, the switch) is total on strings and numbers, so the
  block has no throwing path and the \<^verbatim>\<open>catch\<close> branch is never taken.
\<close>

definition evaluateCondition :: "jsstring \<Rightarrow> BatchProcessingStats \<Rightarrow> bool" where
  "evaluateCondition condition stats =
     (if condition = [] \<or> trim condition = [] then True
      else evalClauses (map trim (split condition (js ''&&''))) stats)"

text \<open>
  The operator whose branch \<^verbatim>\<open>evaluateCondition\<close> takes for a clause, in the order
  of its \<^verbatim>\<open>if\<close> chain; \<open>None\<close> when the clause contains no operator.
\<close>

definition clauseOperator :: "jsstring \<Rightarrow> jsstring option" where
  "clauseOperator cond =
     (if includesStr cond (js ''>='') then Some (js ''>='')
      else if includesStr cond (js ''<='') then Some (js ''<='')
      else if includesStr cond (js ''>'') then Some (js ''>'')
      else if includesStr cond (js ''<'') then Some (js ''<'')
      else if includesStr cond (js ''=='') then Some (js ''=='')
      else None)"

subsection \<open>The grammar of well-formed conditions\<close>




fun decimalDigits :: "nat \<Rightarrow> jsstring" where
  "decimalDigits n = (if n < 10 then [48 + n] else decimalDigits (n div 10) @ [48 + n mod 10])"












definition exampleStats :: "int \<Rightarrow> int \<Rightarrow> BatchProcessingStats" where
  "exampleStats files errors =
     \<lparr>totalFiles = files, processedFiles = 0, successfulFiles = 0, failedFiles = 0,
      modifiedFiles = 0, errorCount = errors, startTime = 0, endTime = None\<rparr>"

text \<open>A snapshot in which the six fields have six different values.\<close>

definition distinctStats :: BatchProcessingStats where
  "distinctStats =
     \<lparr>totalFiles = 6, processedFiles = 5, successfulFiles = 4, failedFiles = 3,
      modifiedFiles = 2, errorCount = 1, startTime = 0, endTime = None\<rparr>"

section \<open>Hooks (hookManager.ts)\<close>

datatype RunAt = BeforeBatch | AfterBatch | BeforeFile | AfterFile | OnError

record HookConfig =
  hookName :: jsstring
  hookCondition :: "jsstring option"
  hookCommand :: jsstring
  hookRunAt :: RunAt

text \<open>
  What one hook did when \<^verbatim>\<open>executeHooks\<close> reached it: skipped because its condition
  was false, dispatched to the host command bus (the text after \<^verbatim>\<open>vscode:\<close>), sent to
  a new terminal (terminal name, command text), or failed inside the \<^verbatim>\<open>try\<close> block.
\<close>

datatype HookEffect =
  HookSkipped jsstring
| HostCommandRun jsstring
| ShellCommandSent jsstring jsstring
| HookFailed jsstring

text \<open>
  \<^verbatim>\<open>hook.condition && !evaluateCondition(hook.condition, stats)\<close>: a missing or empty
  condition is falsy, so the hook runs. \<open>throws\<close> says for which command texts the host
  call (\<^verbatim>\<open>executeCommand\<close>, \<^verbatim>\<open>createTerminal\<close>, \<^verbatim>\<open>sendText\<close>)
  throws; the \<^verbatim>\<open>catch\<close> of the loop body logs it and goes on.
\<close>

definition runHook :: "(jsstring \<Rightarrow> bool) \<Rightarrow> BatchProcessingStats \<Rightarrow> HookConfig \<Rightarrow> HookEffect" where
  "runHook throws stats hook =
     (if (case hookCondition hook of
            None \<Rightarrow> False
          | Some c \<Rightarrow> c \<noteq> [] \<and> \<not> evaluateCondition c stats)
      then HookSkipped (hookName hook)
      else if throws (hookCommand hook) then HookFailed (hookName hook)
      else if startsWith (hookCommand hook) (js ''vscode:'')
        then HostCommandRun (drop 7 (hookCommand hook))
      else ShellCommandSent (js ''Cline Hook: '' @ hookName hook) (hookCommand hook))"

definition executeHooks ::
  "(jsstring \<Rightarrow> bool) \<Rightarrow> HookConfig list \<Rightarrow> RunAt \<Rightarrow> BatchProcessingStats \<Rightarrow> HookEffect list" where
  "executeHooks throws hooks at stats =
     map (runHook throws stats) (filter (\<lambda>hook. hookRunAt hook = at) hooks)"

section \<open>Driving the agent on one file (clineIntegration.ts)\<close>

datatype TaskStatus = StatusNone | Active | Completed | Cancelled

text \<open>
  The agent as one call of \<^verbatim>\<open>processFileWithCline\<close> meets it: whether
  \<^verbatim>\<open>startNewTask\<close> and \<^verbatim>\<open>pressPrimaryButton\<close> throw, and what the \<open>k\<close>-th call
  of \<^verbatim>\<open>getTaskStatus\<close> answers (\<open>None\<close> when it throws).
\<close>

record AgentScript =
  startNewTaskThrows :: bool
  pressPrimaryButtonThrows :: bool
  statusAt :: "nat \<Rightarrow> TaskStatus option"

datatype TaskError = StartNewTaskFailed | PressPrimaryButtonFailed | GetTaskStatusFailed

datatype ConsoleLine =
  TaskCompletedWithStatus TaskStatus
| TaskStillActive nat
| TaskTimeoutReached

definition maxWaitTime :: nat where
  "maxWaitTime = 10 * 60 * 1000"

definition checkInterval :: nat where
  "checkInterval = 5000"

text \<open>
  The \<^verbatim>\<open>while (elapsedTime < maxWaitTime)\<close> loop: the value is the elapsed time at the
  exit together with the console lines, or the error of a throwing \<^verbatim>\<open>getTaskStatus\<close>.
\<close>

function pollTaskStatus ::
  "AgentScript \<Rightarrow> nat \<Rightarrow> ConsoleLine list \<Rightarrow> TaskError + (nat \<times> ConsoleLine list)" where
  "pollTaskStatus cline elapsedTime out =
     (if elapsedTime < maxWaitTime then
        (case statusAt cline (elapsedTime div checkInterval) of
           None \<Rightarrow> Inl GetTaskStatusFailed
         | Some status \<Rightarrow>
             if status = Completed \<or> status = Cancelled \<or> status = StatusNone
             then Inr (elapsedTime, out @ [TaskCompletedWithStatus status])
             else pollTaskStatus cline (elapsedTime + checkInterval)
                    (out @ [TaskStillActive (elapsedTime div 1000)]))
      else Inr (elapsedTime, out))"
  by pat_completeness auto
termination
  by (relation "measure (\<lambda>(cline, elapsedTime, out). maxWaitTime - elapsedTime)")
    (auto simp: maxWaitTime_def checkInterval_def)

definition processFileWithCline :: "AgentScript \<Rightarrow> TaskError + ConsoleLine list" where
  "processFileWithCline cline =
     (if startNewTaskThrows cline then Inl StartNewTaskFailed
      else if pressPrimaryButtonThrows cline then Inl PressPrimaryButtonFailed
      else (case pollTaskStatus cline 0 [] of
              Inl e \<Rightarrow> Inl e
            | Inr (elapsedTime, out) \<Rightarrow>
                Inr (if elapsedTime \<ge> maxWaitTime then out @ [TaskTimeoutReached] else out)))"

section \<open>The batch run (batchProcessor.ts)\<close>

type_synonym ClineMessage = jsstring

datatype HookLogLine =
  HookLogStart RunAt "jsstring option" jsstring
| HookLogCompleted RunAt "jsstring option"

datatype TaskOutcome = Success | Failed

datatype LogBlock =
  HookRunBlock jsstring "HookLogLine list"
| TaskLogBlock jsstring TaskOutcome "ClineMessage list" "HookLogLine list" BatchProcessingStats
| SummaryBlock BatchProcessingStats

text \<open>
  What a run does to the outside, in order: a progress report (file number, total, label), a
  call of \<^verbatim>\<open>executeHooks\<close> with the statistics it was given and what the hooks did, a
  call of \<^verbatim>\<open>processFileWithCline\<close> for a label, a block appended to the log file, the
  notification of the dashboard.
\<close>

datatype Event =
  ProgressReported nat nat jsstring
| HooksExecuted RunAt "jsstring option" BatchProcessingStats "HookEffect list"
| TaskInvoked jsstring
| LogAppended LogBlock
| DashboardNotified BatchProcessingStats

text \<open>
  One selected file together with what the outside does while it is processed: whether
  cancellation has been requested when its iteration begins, the agent, the count of
  \<^verbatim>\<open>git status --porcelain\<close> lines at the three refreshes (\<open>None\<close> when git fails),
  the answer of \<^verbatim>\<open>getTaskMessages\<close> (\<open>None\<close> when it throws) and whether
  \<^verbatim>\<open>appendFile\<close> rejects.
\<close>

record FileRun =
  fileLabel :: jsstring
  cancellationRequested :: bool
  agent :: AgentScript
  gitCountBeforeFile :: "int option"
  gitCountOnError :: "int option"
  gitCountAfterFile :: "int option"
  taskMessages :: "ClineMessage list option"
  appendFileFails :: bool

record BatchEnv =
  clineExtensionInstalled :: bool
  clineApiAvailable :: bool
  taskDescription :: "jsstring option"
  hooks :: "HookConfig list"
  commandThrows :: "jsstring \<Rightarrow> bool"
  gitAvailable :: bool
  logFilePath :: "jsstring option"
  startNow :: int
  endNow :: int
  gitCountBeforeBatch :: "int option"
  gitCountAfterBatch :: "int option"
  beforeBatchAppendFails :: bool
  afterBatchAppendFails :: bool
  summaryAppendFails :: bool

record RunState =
  stats :: BatchProcessingStats
  hookLogs :: "HookLogLine list"
  lastHookLogIndex :: nat
  events :: "Event list"

text \<open>\<^verbatim>\<open>refreshModifiedFilesCount\<close>: nothing without git, and the old value stays when git fails.\<close>

definition refreshModifiedFilesCount :: "BatchEnv \<Rightarrow> int option \<Rightarrow> RunState \<Rightarrow> RunState" where
  "refreshModifiedFilesCount env gitCount st =
     (if \<not> gitAvailable env then st
      else (case gitCount of
              None \<Rightarrow> st
            | Some n \<Rightarrow> st\<lparr>stats := (stats st)\<lparr>modifiedFiles := n\<rparr>\<rparr>))"

definition hookNames :: "HookConfig list \<Rightarrow> jsstring" where
  "hookNames targetHooks =
     (if targetHooks \<noteq> []
      then join (js '', '')
             (map (\<lambda>hook. if hookName hook \<noteq> [] then hookName hook else js ''(no name)'') targetHooks)
      else js ''no hooks'')"

text \<open>
  \<^verbatim>\<open>runHooksWithLogging\<close>. \<^verbatim>\<open>executeHooks\<close> catches what a hook throws, so the
  \<^verbatim>\<open>completed\<close> line always follows the \<^verbatim>\<open>start\<close> line.
\<close>

definition runHooksWithLogging :: "BatchEnv \<Rightarrow> RunAt \<Rightarrow> jsstring option \<Rightarrow> RunState \<Rightarrow> RunState" where
  "runHooksWithLogging env at label st =
     st\<lparr>hookLogs := hookLogs st @
            [HookLogStart at label (hookNames (filter (\<lambda>hook. hookRunAt hook = at) (hooks env))),
             HookLogCompleted at label],
        events := events st @
            [HooksExecuted at label (stats st) (executeHooks (commandThrows env) (hooks env) at (stats st))]\<rparr>"

datatype LoopResult = Continue RunState | Thrown RunState

text \<open>
  The log step that ends an iteration, taken only when a log file exists:
  \<^verbatim>\<open>getTaskMessages\<close>, the slice of hook lines since the last block, and
  \<^verbatim>\<open>appendLogSection\<close>. Neither call is inside a \<^verbatim>\<open>try\<close>: when one throws the
  exception leaves the loop.
\<close>

definition appendTaskLog :: "BatchEnv \<Rightarrow> FileRun \<Rightarrow> TaskOutcome \<Rightarrow> RunState \<Rightarrow> LoopResult" where
  "appendTaskLog env file taskStatus st =
     (case logFilePath env of
        None \<Rightarrow> Continue st
      | Some path \<Rightarrow>
          (case taskMessages file of
             None \<Rightarrow> Thrown st
           | Some messages \<Rightarrow>
               let hookLogSlice = drop (lastHookLogIndex st) (hookLogs st);
                   st1 = st\<lparr>lastHookLogIndex := length (hookLogs st)\<rparr>
               in if appendFileFails file then Thrown st1
                  else Continue (st1\<lparr>events := events st1 @
                         [LogAppended (TaskLogBlock (fileLabel file) taskStatus messages hookLogSlice
                            (stats st1))]\<rparr>)))"

text \<open>The body of the \<^verbatim>\<open>for\<close> loop after the cancellation check, for the file at index \<open>i\<close>.\<close>

definition processOneFile :: "BatchEnv \<Rightarrow> nat \<Rightarrow> FileRun \<Rightarrow> RunState \<Rightarrow> LoopResult" where
  "processOneFile env i file st0 =
     (let st1 = st0\<lparr>events := events st0 @
                   [ProgressReported (i + 1) (nat (totalFiles (stats st0))) (fileLabel file)]\<rparr>;
          st2 = refreshModifiedFilesCount env (gitCountBeforeFile file) st1;
          st3 = runHooksWithLogging env BeforeFile (Some (fileLabel file)) st2;
          st4 = st3\<lparr>events := events st3 @ [TaskInvoked (fileLabel file)]\<rparr>;
          (taskStatus, st5) =
            (case processFileWithCline (agent file) of
               Inr out \<Rightarrow>
                 (Success,
                  st4\<lparr>stats := (stats st4)\<lparr>successfulFiles := successfulFiles (stats st4) + 1\<rparr>\<rparr>)
             | Inl error \<Rightarrow>
                 (let sa = st4\<lparr>stats := (stats st4)\<lparr>failedFiles := failedFiles (stats st4) + 1\<rparr>\<rparr>;
                      sb = sa\<lparr>stats := (stats sa)\<lparr>errorCount := errorCount (stats sa) + 1\<rparr>\<rparr>;
                      sc = refreshModifiedFilesCount env (gitCountOnError file) sb
                  in (Failed, runHooksWithLogging env OnError (Some (fileLabel file)) sc)));
          st6 = st5\<lparr>stats := (stats st5)\<lparr>processedFiles := processedFiles (stats st5) + 1\<rparr>\<rparr>;
          st7 = refreshModifiedFilesCount env (gitCountAfterFile file) st6;
          st8 = runHooksWithLogging env AfterFile (Some (fileLabel file)) st7
      in appendTaskLog env file taskStatus st8)"

text \<open>
  The \<^verbatim>\<open>for\<close> loop: the cancellation token is read first in every iteration, and
  \<^verbatim>\<open>break\<close> leaves the loop normally.
\<close>

fun processFiles :: "BatchEnv \<Rightarrow> nat \<Rightarrow> FileRun list \<Rightarrow> RunState \<Rightarrow> LoopResult" where
  "processFiles env i [] st = Continue st"
| "processFiles env i (file # files) st =
     (if cancellationRequested file then Continue st
      else (case processOneFile env i file st of
              Thrown st' \<Rightarrow> Thrown st'
            | Continue st' \<Rightarrow> processFiles env (i + 1) files st'))"

text \<open>One \<^verbatim>\<open>appendLogSection\<close> outside the loop.\<close>

definition appendLogSection :: "bool \<Rightarrow> LogBlock \<Rightarrow> RunState \<Rightarrow> LoopResult" where
  "appendLogSection fails block st =
     (if fails then Thrown st else Continue (st\<lparr>events := events st @ [LogAppended block]\<rparr>))"

text \<open>Steps 5 to 7: the statistics, the \<^verbatim>\<open>beforeBatch\<close> hooks and their log block.\<close>

definition initialStats :: "BatchEnv \<Rightarrow> FileRun list \<Rightarrow> BatchProcessingStats" where
  "initialStats env files =
     \<lparr>totalFiles = int (length files), processedFiles = 0, successfulFiles = 0, failedFiles = 0,
      modifiedFiles = 0, errorCount = 0, startTime = startNow env, endTime = None\<rparr>"

definition beginBatch :: "BatchEnv \<Rightarrow> FileRun list \<Rightarrow> LoopResult" where
  "beginBatch env files =
     (let st0 = \<lparr>stats = initialStats env files, hookLogs = [], lastHookLogIndex = 0, events = []\<rparr>;
          st1 = refreshModifiedFilesCount env (gitCountBeforeBatch env) st0;
          st2 = runHooksWithLogging env BeforeBatch None st1
      in (case logFilePath env of
            None \<Rightarrow> Continue st2
          | Some path \<Rightarrow>
              appendLogSection (beforeBatchAppendFails env)
                (HookRunBlock (js ''beforeBatch'') (drop (lastHookLogIndex st2) (hookLogs st2)))
                (st2\<lparr>lastHookLogIndex := length (hookLogs st2)\<rparr>)))"

text \<open>Steps 9 to 11, after the loop: they are the same whether the loop ran out of files or
  was left by \<^verbatim>\<open>break\<close>.\<close>

definition completeBatch :: "BatchEnv \<Rightarrow> RunState \<Rightarrow> LoopResult" where
  "completeBatch env st0 =
     (let st1 = st0\<lparr>stats := (stats st0)\<lparr>endTime := Some (endNow env)\<rparr>\<rparr>;
          st2 = refreshModifiedFilesCount env (gitCountAfterBatch env) st1;
          st3 = runHooksWithLogging env AfterBatch None st2;
          logged =
            (case logFilePath env of
               None \<Rightarrow> Continue st3
             | Some path \<Rightarrow>
                 (case appendLogSection (afterBatchAppendFails env)
                         (HookRunBlock (js ''afterBatch'') (drop (lastHookLogIndex st3) (hookLogs st3)))
                         (st3\<lparr>lastHookLogIndex := length (hookLogs st3)\<rparr>) of
                    Thrown st' \<Rightarrow> Thrown st'
                  | Continue st4 \<Rightarrow>
                      appendLogSection (summaryAppendFails env) (SummaryBlock (stats st4)) st4))
      in (case logged of
            Thrown st' \<Rightarrow> Thrown st'
          | Continue st5 \<Rightarrow> Continue (st5\<lparr>events := events st5 @ [DashboardNotified (stats st5)]\<rparr>)))"

datatype BatchOutcome =
  AgentUnavailable
| NoFilesSelected
| NoTaskDescription
| RunThrew RunState
| RunCompleted RunState

definition startBatchProcessing :: "BatchEnv \<Rightarrow> FileRun list \<Rightarrow> BatchOutcome" where
  "startBatchProcessing env files =
     (if \<not> clineExtensionInstalled env then AgentUnavailable
      else if \<not> clineApiAvailable env then AgentUnavailable
      else if files = [] then NoFilesSelected
      else if taskDescription env = None \<or> taskDescription env = Some [] then NoTaskDescription
      else (case beginBatch env files of
              Thrown st \<Rightarrow> RunThrew st
            | Continue st0 \<Rightarrow>
                (case processFiles env 0 files st0 of
                   Thrown st \<Rightarrow> RunThrew st
                 | Continue st1 \<Rightarrow>
                     (case completeBatch env st1 of
                        Thrown st \<Rightarrow> RunThrew st
                      | Continue st2 \<Rightarrow> RunCompleted st2))))"

declare pollTaskStatus.simps [simp del]

section \<open>The task description (taskManager.ts)\<close>

text \<open>
  A value as the JSONC parser returns it, as far as \<^verbatim>\<open>loadTaskConfig\<close> looks at it: a
  string, an array, or anything else. A property of the parsed object is \<open>None\<close> when it is
  undefined.
\<close>

datatype JsonValue = JString jsstring | JArray "JsonValue list" | JOther

record TaskDocument =
  docTaskSummary :: "JsonValue option"
  docTaskDescription :: "JsonValue option"
  docFilePatterns :: "JsonValue option"

datatype ParsedFile = ReadFailed | ParseErrors | NotAnObject | ParsedObject TaskDocument

record TaskConfig =
  taskSummary :: jsstring
  taskDescriptionItems :: "jsstring list"
  filePatterns :: "jsstring list option"

datatype LoadError =
  ReadError | JsoncParseError | InvalidJsonc | TaskSummaryRequired | TaskDescriptionRequired
| TaskDescriptionNotStrings | FilePatternsNotArray | FilePatternsNotStrings

text \<open>\<^verbatim>\<open>items.every(item => typeof item === 'string')\<close>, returning the strings.\<close>

fun everyString :: "JsonValue list \<Rightarrow> jsstring list option" where
  "everyString [] = Some []"
| "everyString (JString s # items) = map_option ((#) s) (everyString items)"
| "everyString (item # items) = None"

text \<open>
  \<^verbatim>\<open>loadTaskConfig\<close>: each \<^verbatim>\<open>throw\<close> is an error value. An empty summary is
  falsy and rejected; the summary and every item are trimmed in the returned configuration.
\<close>

definition loadTaskConfig :: "ParsedFile \<Rightarrow> LoadError + TaskConfig" where
  "loadTaskConfig parsed =
     (case parsed of
        ReadFailed \<Rightarrow> Inl ReadError
      | ParseErrors \<Rightarrow> Inl JsoncParseError
      | NotAnObject \<Rightarrow> Inl InvalidJsonc
      | ParsedObject doc \<Rightarrow>
          (case docTaskSummary doc of
             Some (JString summary) \<Rightarrow>
               if summary = [] then Inl TaskSummaryRequired
               else (case docTaskDescription doc of
                  Some (JArray items) \<Rightarrow>
                    (case everyString items of
                       None \<Rightarrow> Inl TaskDescriptionNotStrings
                     | Some strings \<Rightarrow>
                         (case docFilePatterns doc of
                            None \<Rightarrow>
                              Inr \<lparr>taskSummary = trim summary,
                                   taskDescriptionItems = map trim strings, filePatterns = None\<rparr>
                          | Some (JArray patterns) \<Rightarrow>
                              (case everyString patterns of
                                 None \<Rightarrow> Inl FilePatternsNotStrings
                               | Some ps \<Rightarrow>
                                   Inr \<lparr>taskSummary = trim summary,
                                        taskDescriptionItems = map trim strings,
                                        filePatterns = Some ps\<rparr>)
                          | Some other \<Rightarrow> Inl FilePatternsNotArray))
                | other \<Rightarrow> Inl TaskDescriptionRequired)
           | other \<Rightarrow> Inl TaskSummaryRequired))"

text \<open>The label of the template literal in \<^verbatim>\<open>getTaskDescription\<close>: the code units
  U+8A73, U+7D30 and a colon.\<close>

definition detailsLabel :: jsstring where
  "detailsLabel = [0x8A73, 0x7D30, 0x3A]"

definition combinedTask :: "TaskConfig \<Rightarrow> jsstring" where
  "combinedTask taskConfig =
     taskSummary taskConfig @ [10, 10] @ detailsLabel @ [10] @
     join [10] (map (\<lambda>(index, item). decimalDigits (index + 1) @ js ''. '' @ item)
                  (enumerate 0 (taskDescriptionItems taskConfig)))"

text \<open>
  What the user does in \<^verbatim>\<open>getTaskDescription\<close>: dismisses the quick pick (\<open>None\<close>),
  types into the input box (or dismisses it), or picks a file (or dismisses the dialog).
\<close>

datatype InputMethod = DialogInput "jsstring option" | FileInput "ParsedFile option"

definition getTaskDescription :: "InputMethod option \<Rightarrow> jsstring option" where
  "getTaskDescription method =
     (case method of
        None \<Rightarrow> None
      | Some (DialogInput text) \<Rightarrow> text
      | Some (FileInput None) \<Rightarrow> None
      | Some (FileInput (Some parsed)) \<Rightarrow>
          (case loadTaskConfig parsed of
             Inl error \<Rightarrow> None
           | Inr taskConfig \<Rightarrow> Some (combinedTask taskConfig)))"

text \<open>
  The documented format of the combined instruction: the items numbered from \<open>k\<close>; and a
  structured document with a summary, items and optional file patterns, as the parser returns it.
\<close>

fun numberedFrom :: "nat \<Rightarrow> jsstring list \<Rightarrow> jsstring list" where
  "numberedFrom k [] = []"
| "numberedFrom k (item # items) = (decimalDigits k @ js ''. '' @ item) # numberedFrom (k + 1) items"

definition structuredDocument ::
  "jsstring \<Rightarrow> jsstring list \<Rightarrow> jsstring list option \<Rightarrow> InputMethod option" where
  "structuredDocument summary items patterns =
     Some (FileInput (Some (ParsedObject
       \<lparr>docTaskSummary = Some (JString summary),
        docTaskDescription = Some (JArray (map JString items)),
        docFilePatterns = map_option (\<lambda>ps. JArray (map JString ps)) patterns\<rparr>)))"

section \<open>File selection (batchProcessor.ts)\<close>








subsection \<open>Notions used to state the properties of the selection\<close>









section \<open>Notions used to state the properties of a run\<close>

text \<open>The invariant of the statistics at an observation point after a file has completed.\<close>

definition statsInvariant :: "BatchProcessingStats \<Rightarrow> bool" where
  "statsInvariant s \<longleftrightarrow>
     processedFiles s = successfulFiles s + failedFiles s \<and> processedFiles s \<le> totalFiles s"

text \<open>The state a step ends in, whether it returned or threw.\<close>

fun stateOf :: "LoopResult \<Rightarrow> RunState" where
  "stateOf (Continue st) = st"
| "stateOf (Thrown st) = st"

text \<open>The log step of a file throws: a log file exists and \<^verbatim>\<open>getTaskMessages\<close> or
  \<^verbatim>\<open>appendFile\<close> fails.\<close>

definition logStepThrows :: "BatchEnv \<Rightarrow> FileRun \<Rightarrow> bool" where
  "logStepThrows env file \<longleftrightarrow>
     logFilePath env \<noteq> None \<and> (taskMessages file = None \<or> appendFileFails file)"

text \<open>The files \<^verbatim>\<open>processFileWithCline\<close> was called for, in order.\<close>

fun invokedLabels :: "Event list \<Rightarrow> jsstring list" where
  "invokedLabels [] = []"
| "invokedLabels (TaskInvoked label # es) = label # invokedLabels es"
| "invokedLabels (e # es) = invokedLabels es"

text \<open>
  The file an event concerns: the progress report, the hooks, the task and the task block of
  the log of an iteration concern the file of that iteration, the other events no file.
  \<open>concernedFiles\<close> lists the files the events of a run concern, in order.
\<close>

fun concernedFile :: "Event \<Rightarrow> jsstring option" where
  "concernedFile (ProgressReported n k label) = Some label"
| "concernedFile (HooksExecuted at label s effects) = label"
| "concernedFile (TaskInvoked label) = Some label"
| "concernedFile (LogAppended (TaskLogBlock label status messages lines s)) = Some label"
| "concernedFile e = None"

definition concernedFiles :: "Event list \<Rightarrow> jsstring list" where
  "concernedFiles es = concat (map (\<lambda>e. case concernedFile e of None \<Rightarrow> [] | Some label \<Rightarrow> [label]) es)"

text \<open>
  The statistics an observer is shown by an event. Every observation except the one of the
  \<^verbatim>\<open>onError\<close> hooks is made between two files, or after the last one.
\<close>

fun observedAfterFile :: "Event \<Rightarrow> BatchProcessingStats option" where
  "observedAfterFile (HooksExecuted at label s effects) = (if at = OnError then None else Some s)"
| "observedAfterFile (LogAppended (TaskLogBlock label status messages lines s)) = Some s"
| "observedAfterFile (LogAppended (SummaryBlock s)) = Some s"
| "observedAfterFile (DashboardNotified s) = Some s"
| "observedAfterFile e = None"

fun observedOnError :: "Event \<Rightarrow> BatchProcessingStats option" where
  "observedOnError (HooksExecuted at label s effects) = (if at = OnError then Some s else None)"
| "observedOnError e = None"

text \<open>The hooks of an event were run against the very statistics the event carries.\<close>

fun hooksEvaluatedOn :: "BatchEnv \<Rightarrow> Event \<Rightarrow> bool" where
  "hooksEvaluatedOn env (HooksExecuted at label s effects) =
     (effects = executeHooks (commandThrows env) (hooks env) at s)"
| "hooksEvaluatedOn env e = True"

text \<open>What every event of a run satisfies, and the loop invariant before the file at index \<open>i\<close>.\<close>

definition eventOK :: "BatchEnv \<Rightarrow> Event \<Rightarrow> bool" where
  "eventOK env e \<longleftrightarrow>
     hooksEvaluatedOn env e \<and>
     (case observedAfterFile e of None \<Rightarrow> True | Some s \<Rightarrow> statsInvariant s) \<and>
     (case observedOnError e of None \<Rightarrow> True
      | Some s \<Rightarrow> processedFiles s + 1 = successfulFiles s + failedFiles s \<and>
                  processedFiles s < totalFiles s \<and> errorCount s = failedFiles s \<and>
                  1 \<le> failedFiles s)"

definition counted :: "BatchEnv \<Rightarrow> nat \<Rightarrow> RunState \<Rightarrow> bool" where
  "counted env i st \<longleftrightarrow>
     processedFiles (stats st) = int i \<and>
     successfulFiles (stats st) + failedFiles (stats st) = int i \<and>
     errorCount (stats st) = failedFiles (stats st) \<and> 0 \<le> failedFiles (stats st) \<and>
     (\<forall>e\<in>set (events st). eventOK env e)"

text \<open>Projections of the outcome of a run.\<close>

fun outcomeState :: "BatchOutcome \<Rightarrow> RunState option" where
  "outcomeState (RunThrew st) = Some st"
| "outcomeState (RunCompleted st) = Some st"
| "outcomeState outcome = None"

text \<open>The agent is available, files were selected and a task description was given.\<close>

definition runStarts :: "BatchEnv \<Rightarrow> FileRun list \<Rightarrow> bool" where
  "runStarts env files \<longleftrightarrow>
     clineExtensionInstalled env \<and> clineApiAvailable env \<and> files \<noteq> [] \<and>
     taskDescription env \<noteq> None \<and> taskDescription env \<noteq> Some []"

text \<open>
  The completion sequence of a run with final statistics \<open>s\<close>: the \<^verbatim>\<open>afterBatch\<close>
  hooks, then (with a log file) the hook block and the summary block, then the dashboard.
\<close>

definition completionSequence ::
  "BatchEnv \<Rightarrow> BatchProcessingStats \<Rightarrow> HookLogLine list \<Rightarrow> Event list" where
  "completionSequence env s newHookLines =
     [HooksExecuted AfterBatch None s (executeHooks (commandThrows env) (hooks env) AfterBatch s)] @
     (if logFilePath env = None then []
      else [LogAppended (HookRunBlock (js ''afterBatch'') newHookLines), LogAppended (SummaryBlock s)]) @
     [DashboardNotified s]"

fun finalStats :: "BatchOutcome \<Rightarrow> BatchProcessingStats option" where
  "finalStats (RunThrew st) = Some (stats st)"
| "finalStats (RunCompleted st) = Some (stats st)"
| "finalStats outcome = None"

fun outcomeEvents :: "BatchOutcome \<Rightarrow> Event list" where
  "outcomeEvents (RunThrew st) = events st"
| "outcomeEvents (RunCompleted st) = events st"
| "outcomeEvents outcome = []"

fun isRunThrew :: "BatchOutcome \<Rightarrow> bool" where
  "isRunThrew (RunThrew st) = True"
| "isRunThrew outcome = False"

subsection \<open>Example runs\<close>

text \<open>
  An agent that gives the same answer to every status request, a file processed by such an
  agent, and an environment without git in which no hook command and no batch-level log
  append fails.
\<close>

definition exampleAgent :: "TaskStatus option \<Rightarrow> AgentScript" where
  "exampleAgent answer =
     \<lparr>startNewTaskThrows = False, pressPrimaryButtonThrows = False, statusAt = (\<lambda>k. answer)\<rparr>"

definition exampleFile :: "jsstring \<Rightarrow> bool \<Rightarrow> TaskStatus option \<Rightarrow> bool \<Rightarrow> FileRun" where
  "exampleFile label cancelled answer appendFails =
     \<lparr>fileLabel = label, cancellationRequested = cancelled, agent = exampleAgent answer,
      gitCountBeforeFile = None, gitCountOnError = None, gitCountAfterFile = None,
      taskMessages = Some [], appendFileFails = appendFails\<rparr>"

definition exampleEnv :: "HookConfig list \<Rightarrow> jsstring option \<Rightarrow> BatchEnv" where
  "exampleEnv hs logPath =
     \<lparr>clineExtensionInstalled = True, clineApiAvailable = True,
      taskDescription = Some (js ''add comments''), hooks = hs, commandThrows = (\<lambda>c. False),
      gitAvailable = False, logFilePath = logPath, startNow = 0, endNow = 1000,
      gitCountBeforeBatch = None, gitCountAfterBatch = None, beforeBatchAppendFails = False,
      afterBatchAppendFails = False, summaryAppendFails = False\<rparr>"

definition exampleOnErrorHook :: HookConfig where
  "exampleOnErrorHook =
     \<lparr>hookName = js ''notify'', hookCondition = Some (js ''processedFiles >= 1''),
      hookCommand = js ''echo failed'', hookRunAt = OnError\<rparr>"

text \<open>
  An environment with git and a log file, in which git reports two modified files before the
  batch and seven after the loop, and a hook that commits after the batch when at least five
  files are modified.
\<close>

definition exampleAfterBatchHook :: HookConfig where
  "exampleAfterBatchHook =
     \<lparr>hookName = js ''commit'', hookCondition = Some (js ''modifiedFiles >= 5''),
      hookCommand = js ''git commit -am batch'', hookRunAt = AfterBatch\<rparr>"

definition exampleGitEnv :: BatchEnv where
  "exampleGitEnv =
     (exampleEnv [exampleAfterBatchHook] (Some (js ''batch.log'')))
       \<lparr>gitAvailable := True, gitCountBeforeBatch := Some 2, gitCountAfterBatch := Some 7\<rparr>"

section \<open>Properties of the string primitives\<close>

declare decimalDigits.simps [simp del]

lemma startsWith_Nil [simp]: "startsWith s []" by (simp add: startsWith_def)
lemma startsWith_append_self [simp]: "startsWith (p @ s) p" by (simp add: startsWith_def)



lemma includesStr_prefix: "includesStr (p @ s) p"
proof (cases "p @ s")
  case Nil
  then show ?thesis by simp
next
  case (Cons a l)
  have "startsWith (p @ s) p" by simp
  with Cons show ?thesis by simp
qed




















lemma js_literals:
  "js ''>='' = [62, 61]" "js ''<='' = [60, 61]" "js ''=='' = [61, 61]" "js ''>'' = [62]"
  "js ''<'' = [60]" "js '' '' = [32]" "js ''&&'' = [38, 38]" "js '' && '' = [32, 38, 38, 32]"
  by (simp_all add: js_def)












section \<open>Claims about the condition evaluator\<close>



lemmas evaluator_defs = evaluateCondition_def js_def trim_def isWhiteSpace_def split_def
  startsWith_def evalClause_def operands_def firstPiece_def secondPiece_def parseIntArg_def
  parseInt_def Let_def isRadixDigit_def digitValue_def radixValue_def roundToDouble_def
  getVariableValue_def




text \<open>
  What a clause outside the grammar does. A clause with none of the five operators is skipped.
  A clause whose right operand is not a number is skipped as well under \<^verbatim>\<open>>=\<close>,
  \<^verbatim>\<open><=\<close>, \<^verbatim>\<open>>\<close> and \<^verbatim>\<open><\<close>, because every comparison with NaN is false;
  only the \<^verbatim>\<open>==\<close> branch, which tests \<^verbatim>\<open>!==\<close>, returns false on it.
\<close>

lemma evalClause_not_a_number:
  "(clauseOperator c = None \<longrightarrow> evalClause c snapshot) \<and>
   (\<forall>opr. clauseOperator c = Some opr \<and> parseIntArg (snd (operands c opr)) = NaN \<longrightarrow>
      evalClause c snapshot = (opr \<noteq> js ''==''))"
  by (auto simp: clauseOperator_def evalClause_def js_literals split: prod.splits)

text \<open>
  Claim C1 says that a condition with a malformed clause evaluates to false and that
  \<^verbatim>\<open>evaluateCondition\<close> never throws. On a string no operation of the function
  throws. The first part does not hold of the source, which returns false in its
  \<^verbatim>\<open>catch\<close> branch and on a right operand that is not a number under \<^verbatim>\<open>==\<close>,
  and misses the other malformed clauses: a clause without an operator and a clause comparing
  with \<^verbatim>\<open>abc\<close> under \<^verbatim>\<open>>=\<close> leave the condition true, whereas the same
  operand under \<^verbatim>\<open>==\<close> makes it false; and the condition
  \<^verbatim>\<open>processedFiles % 10 == 0 && processedFiles > 0\<close>, which the default hook file
  gives as its example of a backup after every ten files, is true after five files.
\<close>

theorem malformed_clause_leaves_condition_true:
  "evaluateCondition (js ''totalFiles'') (exampleStats 5 0) \<and>
   evaluateCondition (js ''totalFiles >= abc'') (exampleStats 5 0) \<and>
   \<not> evaluateCondition (js ''totalFiles == abc'') (exampleStats 5 0) \<and>
   evaluateCondition (js ''processedFiles % 10 == 0 && processedFiles > 0'') distinctStats"
proof (intro conjI)
  show "evaluateCondition (js ''totalFiles'') (exampleStats 5 0)"
    by (simp add: evaluator_defs)
  show "evaluateCondition (js ''totalFiles >= abc'') (exampleStats 5 0)"
    by (simp add: evaluator_defs)
  show "\<not> evaluateCondition (js ''totalFiles == abc'') (exampleStats 5 0)"
    by (simp add: evaluator_defs)
  show "evaluateCondition (js ''processedFiles % 10 == 0 && processedFiles > 0'') distinctStats"
    by (simp add: evaluator_defs distinctStats_def)
qed

section \<open>Properties of the agent driver and of the batch run\<close>

lemma pollTaskStatus_active:
  assumes "\<forall>k<120. statusAt cline k = Some Active" "j \<le> 120"
  shows "pollTaskStatus cline (j * checkInterval) out =
           Inr (maxWaitTime, out @ map (\<lambda>k. TaskStillActive (5 * k)) [j..<120])"
  using assms(2)
proof (induction "120 - j" arbitrary: j out)
  case 0
  then have "j = 120" by simp
  then show ?case
    by (subst pollTaskStatus.simps) (simp add: maxWaitTime_def checkInterval_def)
next
  case (Suc n)
  then have j: "j < 120" by simp
  then have lt: "j * checkInterval < maxWaitTime" by (simp add: maxWaitTime_def checkInterval_def)
  have idx: "j * checkInterval div checkInterval = j" "j * checkInterval div 1000 = 5 * j"
    by (simp_all add: checkInterval_def)
  have st: "statusAt cline j = Some Active" using assms(1) j by simp
  have step: "j * checkInterval + checkInterval = Suc j * checkInterval" by simp
  have IH: "pollTaskStatus cline (Suc j * checkInterval) (out @ [TaskStillActive (5 * j)]) =
      Inr (maxWaitTime, (out @ [TaskStillActive (5 * j)]) @ map (\<lambda>k. TaskStillActive (5 * k)) [Suc j..<120])"
    using Suc.hyps(2) j by (intro Suc.hyps(1)) simp_all
  have up: "[j..<120] = j # [Suc j..<120]" using j by (simp add: upt_conv_Cons)
  show ?case
    by (subst pollTaskStatus.simps) (simp only: lt if_True idx st option.case TaskStatus.distinct
        simp_thms if_False step IH up list.map append.simps append_assoc)
qed

lemma pollTaskStatus_error:
  "pollTaskStatus cline elapsedTime out = Inl e \<Longrightarrow>
     e = GetTaskStatusFailed \<and> (\<exists>k<120. statusAt cline k = None)"
proof (induction cline elapsedTime out rule: pollTaskStatus.induct)
  case (1 cline elapsedTime out)
  show ?case
  proof (cases "elapsedTime < maxWaitTime")
    case False
    with "1.prems" show ?thesis by (subst (asm) pollTaskStatus.simps) simp
  next
    case True
    then have k: "elapsedTime div checkInterval < 120"
      by (simp add: maxWaitTime_def checkInterval_def)
    show ?thesis
    proof (cases "statusAt cline (elapsedTime div checkInterval)")
      case None
      with True "1.prems" k show ?thesis by (subst (asm) pollTaskStatus.simps) auto
    next
      case (Some status)
      show ?thesis
      proof (cases "status = Completed \<or> status = Cancelled \<or> status = StatusNone")
        case t: True
        with True Some "1.prems" show ?thesis by (subst (asm) pollTaskStatus.simps) auto
      next
        case f: False
        with True Some "1.prems" have "pollTaskStatus cline (elapsedTime + checkInterval)
                    (out @ [TaskStillActive (elapsedTime div 1000)]) = Inl e"
          by (subst (asm) pollTaskStatus.simps) auto
        with "1.IH" [OF True Some f] show ?thesis by simp
      qed
    qed
  qed
qed

lemma processFileWithCline_timeout:
  assumes "\<not> startNewTaskThrows cline" "\<not> pressPrimaryButtonThrows cline"
    "\<forall>k<120. statusAt cline k = Some Active"
  shows "processFileWithCline cline =
           Inr (map (\<lambda>k. TaskStillActive (5 * k)) [0..<120] @ [TaskTimeoutReached])"
  using assms(1,2) pollTaskStatus_active [OF assms(3), of 0 "[]"]
  by (simp add: processFileWithCline_def)

lemma processFileWithCline_error:
  assumes "processFileWithCline cline = Inl e"
  shows "startNewTaskThrows cline \<or> pressPrimaryButtonThrows cline \<or> (\<exists>k<120. statusAt cline k = None)"
  using assms pollTaskStatus_error [of cline 0 "[]"]
  by (auto simp: processFileWithCline_def split: if_splits sum.splits)

lemma refresh_simps [simp]:
  "processedFiles (stats (refreshModifiedFilesCount env g st)) = processedFiles (stats st)"
  "successfulFiles (stats (refreshModifiedFilesCount env g st)) = successfulFiles (stats st)"
  "failedFiles (stats (refreshModifiedFilesCount env g st)) = failedFiles (stats st)"
  "errorCount (stats (refreshModifiedFilesCount env g st)) = errorCount (stats st)"
  "totalFiles (stats (refreshModifiedFilesCount env g st)) = totalFiles (stats st)"
  "endTime (stats (refreshModifiedFilesCount env g st)) = endTime (stats st)"
  "startTime (stats (refreshModifiedFilesCount env g st)) = startTime (stats st)"
  "events (refreshModifiedFilesCount env g st) = events st"
  "hookLogs (refreshModifiedFilesCount env g st) = hookLogs st"
  "lastHookLogIndex (refreshModifiedFilesCount env g st) = lastHookLogIndex st"
  by (simp_all add: refreshModifiedFilesCount_def split: option.splits)

lemma runHooks_simps [simp]:
  "stats (runHooksWithLogging env at label st) = stats st"
  "events (runHooksWithLogging env at label st) = events st @
     [HooksExecuted at label (stats st) (executeHooks (commandThrows env) (hooks env) at (stats st))]"
  "lastHookLogIndex (runHooksWithLogging env at label st) = lastHookLogIndex st"
  by (simp_all add: runHooksWithLogging_def)

lemma statsInvariant_refresh [simp]:
  "statsInvariant (stats (refreshModifiedFilesCount env g st)) = statsInvariant (stats st)"
  by (simp add: statsInvariant_def)

lemma processOneFile_counted:
  assumes "counted env i st" "int i < totalFiles (stats st)"
  shows "counted env (Suc i) (stateOf (processOneFile env i fr st))"
  using assms
  by (auto simp: processOneFile_def Let_def appendTaskLog_def counted_def eventOK_def
      statsInvariant_def split: sum.splits option.splits)

lemma processOneFile_total:
  "totalFiles (stats (stateOf (processOneFile env i fr st))) = totalFiles (stats st)"
  by (auto simp: processOneFile_def Let_def appendTaskLog_def split: sum.splits option.splits)

lemma invokedLabels_append: "invokedLabels (a @ b) = invokedLabels a @ invokedLabels b"
  by (induction a rule: invokedLabels.induct) simp_all

lemma processOneFile_invoked:
  "invokedLabels (events (stateOf (processOneFile env i fr st))) =
     invokedLabels (events st) @ [fileLabel fr]"
  by (auto simp: processOneFile_def Let_def appendTaskLog_def invokedLabels_append
      split: sum.splits option.splits)

lemma processOneFile_processed:
  "processedFiles (stats (stateOf (processOneFile env i fr st))) = processedFiles (stats st) + 1"
  by (auto simp: processOneFile_def Let_def appendTaskLog_def split: sum.splits option.splits)

lemma processOneFile_thrown:
  "(\<exists>st'. processOneFile env i fr st = Thrown st') \<longleftrightarrow> logStepThrows env fr"
  by (auto simp: processOneFile_def Let_def appendTaskLog_def logStepThrows_def
      split: sum.splits option.splits prod.splits)

lemma processOneFile_continue:
  assumes "\<not> logStepThrows env fr"
  shows "processOneFile env i fr st = Continue (stateOf (processOneFile env i fr st))"
  using processOneFile_thrown [of env i fr st] assms
  by (cases "processOneFile env i fr st") auto

lemma processOneFile_success:
  assumes "processFileWithCline (agent fr) = Inr out"
  shows "successfulFiles (stats (stateOf (processOneFile env i fr st))) = successfulFiles (stats st) + 1"
    "failedFiles (stats (stateOf (processOneFile env i fr st))) = failedFiles (stats st)"
    "errorCount (stats (stateOf (processOneFile env i fr st))) = errorCount (stats st)"
  using assms
  by (auto simp: processOneFile_def Let_def appendTaskLog_def split: sum.splits option.splits)

lemma processFiles_counted:
  assumes "counted env i st" "int i + int (length frs) \<le> totalFiles (stats st)"
  shows "\<exists>j. counted env j (stateOf (processFiles env i frs st)) \<and>
             int j \<le> totalFiles (stats st) \<and>
             totalFiles (stats (stateOf (processFiles env i frs st))) = totalFiles (stats st)"
  using assms
proof (induction frs arbitrary: i st)
  case Nil
  then show ?case by auto
next
  case (Cons fr frs)
  let ?r = "processOneFile env i fr st"
  have c: "counted env (Suc i) (stateOf ?r)"
    using Cons.prems by (intro processOneFile_counted) simp_all
  have t: "totalFiles (stats (stateOf ?r)) = totalFiles (stats st)"
    by (rule processOneFile_total)
  show ?case
  proof (cases "cancellationRequested fr")
    case True
    with Cons.prems show ?thesis by auto
  next
    case False
    show ?thesis
    proof (cases ?r)
      case (Thrown st')
      with c t False Cons.prems show ?thesis by (auto intro!: exI [of _ "Suc i"])
    next
      case (Continue st')
      with c t have "counted env (Suc i) st'" "int (Suc i) + int (length frs) \<le> totalFiles (stats st')"
        using Cons.prems by simp_all
      from Cons.IH [OF this] Continue False t show ?thesis by auto
    qed
  qed
qed

lemma processFiles_prefix:
  assumes "\<forall>x\<in>set pre. \<not> cancellationRequested x \<and> \<not> logStepThrows env x"
  shows "\<exists>st'. processFiles env i (pre @ rest) st = processFiles env (i + length pre) rest st' \<and>
           processedFiles (stats st') = processedFiles (stats st) + int (length pre) \<and>
           invokedLabels (events st') = invokedLabels (events st) @ map fileLabel pre"
  using assms
proof (induction pre arbitrary: i st)
  case Nil
  then show ?case by (auto intro!: exI [of _ st])
next
  case (Cons fr pre)
  define st1 where "st1 = stateOf (processOneFile env i fr st)"
  have 1: "processOneFile env i fr st = Continue st1"
    unfolding st1_def using Cons.prems by (intro processOneFile_continue) simp
  from Cons.prems have "\<forall>x\<in>set pre. \<not> cancellationRequested x \<and> \<not> logStepThrows env x" by simp
  from Cons.IH [OF this, of "Suc i" st1] obtain st' where
    st': "processFiles env (Suc i) (pre @ rest) st1 = processFiles env (Suc i + length pre) rest st'"
      "processedFiles (stats st') = processedFiles (stats st1) + int (length pre)"
      "invokedLabels (events st') = invokedLabels (events st1) @ map fileLabel pre"
    by blast
  have "processFiles env i ((fr # pre) @ rest) st = processFiles env (Suc i) (pre @ rest) st1"
    using Cons.prems 1 by simp
  moreover have "processedFiles (stats st1) = processedFiles (stats st) + 1"
    "invokedLabels (events st1) = invokedLabels (events st) @ [fileLabel fr]"
    unfolding st1_def by (rule processOneFile_processed, rule processOneFile_invoked)
  ultimately show ?case using st' by (auto intro!: exI [of _ st'])
qed

lemma beginBatch_counted:
  "counted env 0 (stateOf (beginBatch env frs))"
  "totalFiles (stats (stateOf (beginBatch env frs))) = int (length frs)"
  "invokedLabels (events (stateOf (beginBatch env frs))) = []"
  by (auto simp: beginBatch_def Let_def appendLogSection_def counted_def eventOK_def
      statsInvariant_def initialStats_def split: option.splits)

lemma beginBatch_continue:
  assumes "logFilePath env = None \<or> \<not> beforeBatchAppendFails env"
  shows "beginBatch env frs = Continue (stateOf (beginBatch env frs))"
  using assms by (auto simp: beginBatch_def Let_def appendLogSection_def split: option.splits)

lemma completeBatch_counted:
  assumes "counted env j st" "int j \<le> totalFiles (stats st)"
  shows "statsInvariant (stats (stateOf (completeBatch env st)))"
    "\<forall>e\<in>set (events (stateOf (completeBatch env st))). eventOK env e"
  using assms
  by (auto simp: completeBatch_def Let_def appendLogSection_def counted_def eventOK_def
      statsInvariant_def split: option.splits)

lemma completeBatch_kept:
  "processedFiles (stats (stateOf (completeBatch env st))) = processedFiles (stats st)"
  "invokedLabels (events (stateOf (completeBatch env st))) = invokedLabels (events st)"
  by (auto simp: completeBatch_def Let_def appendLogSection_def invokedLabels_append
      split: option.splits)

lemma counted_invariant:
  assumes "counted env j st" "int j \<le> totalFiles (stats st)"
  shows "statsInvariant (stats st)" "\<forall>e\<in>set (events st). eventOK env e"
  using assms by (auto simp: counted_def statsInvariant_def)

lemma run_invariant:
  assumes "outcomeState (startBatchProcessing env frs) = Some st"
  shows "statsInvariant (stats st) \<and> (\<forall>e\<in>set (events st). eventOK env e)"
proof -
  let ?b = "beginBatch env frs"
  have b: "counted env 0 (stateOf ?b)" "totalFiles (stats (stateOf ?b)) = int (length frs)"
    by (rule beginBatch_counted)+
  show ?thesis
  proof (cases ?b)
    case (Thrown st0)
    with assms have "st = st0" by (auto simp: startBatchProcessing_def split: if_splits)
    with b Thrown show ?thesis using counted_invariant [of env 0 st0] by simp
  next
    case (Continue st0)
    let ?l = "processFiles env 0 frs st0"
    from b Continue have c0: "counted env 0 st0" "int 0 + int (length frs) \<le> totalFiles (stats st0)"
      by simp_all
    from processFiles_counted [OF c0] obtain j where
      j: "counted env j (stateOf ?l)" "int j \<le> totalFiles (stats st0)"
         "totalFiles (stats (stateOf ?l)) = totalFiles (stats st0)"
      by blast
    show ?thesis
    proof (cases ?l)
      case (Thrown st1)
      with assms Continue have "st = st1" by (auto simp: startBatchProcessing_def split: if_splits)
      with j Thrown show ?thesis using counted_invariant [of env j st1] by simp
    next
      case c1: (Continue st1)
      with j have j1: "counted env j st1" "int j \<le> totalFiles (stats st1)" by simp_all
      from assms Continue c1 have "st = stateOf (completeBatch env st1)"
        by (auto simp: startBatchProcessing_def split: if_splits LoopResult.splits)
      with completeBatch_counted [OF j1] show ?thesis by simp
    qed
  qed
qed

lemma exampleAgent_runs:
  "processFileWithCline (exampleAgent (Some Completed)) = Inr [TaskCompletedWithStatus Completed]"
  "processFileWithCline (exampleAgent None) = Inl GetTaskStatusFailed"
  by (simp_all add: processFileWithCline_def exampleAgent_def pollTaskStatus.simps [of _ 0]
      maxWaitTime_def checkInterval_def)

lemmas run_defs = startBatchProcessing_def beginBatch_def completeBatch_def processOneFile_def
  appendTaskLog_def appendLogSection_def runHooksWithLogging_def refreshModifiedFilesCount_def
  initialStats_def exampleEnv_def exampleFile_def Let_def executeHooks_def hookNames_def

lemma example_task: "js ''add comments'' \<noteq> []"
  by (simp add: js_def)

lemma outcome_projections:
  "outcomeState outcome = Some st \<Longrightarrow> finalStats outcome = Some (stats st) \<and> outcomeEvents outcome = events st"
  "finalStats outcome = Some s \<Longrightarrow> \<exists>st. outcomeState outcome = Some st \<and> stats st = s"
  "e \<in> set (outcomeEvents outcome) \<Longrightarrow> \<exists>st. outcomeState outcome = Some st \<and> e \<in> set (events st)"
  by (cases outcome; auto)+

text \<open>
  Claim C2. For every run, at every observation point after a file has completed the
  statistics satisfy \<open>processedFiles = successfulFiles + failedFiles\<close> and
  \<open>processedFiles \<le> totalFiles\<close>: this holds for the final statistics (also when the run
  ended by an exception) and for the statistics shown to every hook call other than
  \<^verbatim>\<open>onError\<close>, to every task block and summary block of the log, and to the dashboard.
\<close>

theorem stats_invariant_after_each_file:
  "(\<forall>s. finalStats (startBatchProcessing env files) = Some s \<longrightarrow> statsInvariant s) \<and>
   (\<forall>e\<in>set (outcomeEvents (startBatchProcessing env files)).
      \<forall>s. observedAfterFile e = Some s \<longrightarrow> statsInvariant s)"
proof (intro conjI allI ballI impI)
  fix s assume "finalStats (startBatchProcessing env files) = Some s"
  then obtain st where "outcomeState (startBatchProcessing env files) = Some st" "stats st = s"
    using outcome_projections(2) by blast
  with run_invariant show "statsInvariant s" by blast
next
  fix e s
  assume "e \<in> set (outcomeEvents (startBatchProcessing env files))" "observedAfterFile e = Some s"
  then obtain st where "outcomeState (startBatchProcessing env files) = Some st" "e \<in> set (events st)"
    using outcome_projections(3) by blast
  with run_invariant have "eventOK env e" by blast
  with \<open>observedAfterFile e = Some s\<close> show "statsInvariant s" by (simp add: eventOK_def)
qed

theorem stats_invariant_after_each_file_witness:
  "finalStats (startBatchProcessing (exampleEnv [] None)
      [exampleFile (js ''a.ts'') False (Some Completed) False,
       exampleFile (js ''b.ts'') False None False]) =
    Some \<lparr>totalFiles = 2, processedFiles = 2, successfulFiles = 1, failedFiles = 1,
      modifiedFiles = 0, errorCount = 1, startTime = 0, endTime = Some 1000\<rparr> \<and>
   statsInvariant \<lparr>totalFiles = 2, processedFiles = 2, successfulFiles = 1, failedFiles = 1,
      modifiedFiles = 0, errorCount = 1, startTime = 0, endTime = Some 1000\<rparr> \<and>
   HooksExecuted AfterFile (Some (js ''a.ts''))
     \<lparr>totalFiles = 2, processedFiles = 1, successfulFiles = 1, failedFiles = 0,
      modifiedFiles = 0, errorCount = 0, startTime = 0, endTime = None\<rparr> []
     \<in> set (outcomeEvents (startBatchProcessing (exampleEnv [] None)
      [exampleFile (js ''a.ts'') False (Some Completed) False,
       exampleFile (js ''b.ts'') False None False])) \<and>
   statsInvariant \<lparr>totalFiles = 2, processedFiles = 1, successfulFiles = 1, failedFiles = 0,
      modifiedFiles = 0, errorCount = 0, startTime = 0, endTime = None\<rparr>"
proof -
  let ?env = "exampleEnv [] None"
  let ?files = "[exampleFile (js ''a.ts'') False (Some Completed) False,
       exampleFile (js ''b.ts'') False None False]"
  let ?final = "\<lparr>totalFiles = 2, processedFiles = 2, successfulFiles = 1, failedFiles = 1,
      modifiedFiles = 0, errorCount = 1, startTime = 0, endTime = Some 1000\<rparr>"
  let ?mid = "\<lparr>totalFiles = 2, processedFiles = 1, successfulFiles = 1, failedFiles = 0,
      modifiedFiles = 0, errorCount = 0, startTime = 0, endTime = None\<rparr>"
  have f: "finalStats (startBatchProcessing ?env ?files) = Some ?final"
    by (simp add: run_defs exampleAgent_runs example_task)
  have e: "HooksExecuted AfterFile (Some (js ''a.ts'')) ?mid []
      \<in> set (outcomeEvents (startBatchProcessing ?env ?files))"
    by (simp add: run_defs exampleAgent_runs example_task)
  from stats_invariant_after_each_file [of ?env ?files] f e
  have "statsInvariant ?final" "statsInvariant ?mid" by (blast, fastforce)
  with f e show ?thesis by blast
qed

lemma example_condition:
  "\<not> evaluateCondition (js ''processedFiles >= 1'')
     \<lparr>totalFiles = 1, processedFiles = 0, successfulFiles = 0, failedFiles = 1,
      modifiedFiles = 0, errorCount = 1, startTime = 0, endTime = None\<rparr>"
  by (simp add: evaluateCondition_def js_def trim_def isWhiteSpace_def split_def startsWith_def
      evalClause_def operands_def firstPiece_def secondPiece_def parseIntArg_def parseInt_def
      Let_def isRadixDigit_def digitValue_def radixValue_def roundToDouble_def getVariableValue_def)

lemma example_condition_text: "js ''processedFiles >= 1'' \<noteq> []"
  by (simp add: js_def)

text \<open>
  Claim C9. When the \<^verbatim>\<open>onError\<close> hooks are evaluated for a failing file,
  \<open>failedFiles\<close> and \<open>errorCount\<close> have been incremented for that file and
  \<open>processedFiles\<close> has not: the statistics the hooks are evaluated against satisfy
  \<open>processedFiles = successfulFiles + failedFiles - 1\<close>, so a condition over
  \<open>processedFiles\<close> sees the count without the file that just failed.
\<close>

theorem onError_hooks_before_processedFiles_increment:
  assumes "HooksExecuted OnError label s effects \<in> set (outcomeEvents (startBatchProcessing env files))"
  shows "processedFiles s = successfulFiles s + failedFiles s - 1 \<and>
         errorCount s = failedFiles s \<and> 1 \<le> failedFiles s \<and>
         effects = executeHooks (commandThrows env) (hooks env) OnError s"
proof -
  from assms obtain st where "outcomeState (startBatchProcessing env files) = Some st"
    "HooksExecuted OnError label s effects \<in> set (events st)"
    using outcome_projections(3) by blast
  with run_invariant have "eventOK env (HooksExecuted OnError label s effects)" by blast
  then show ?thesis by (simp add: eventOK_def)
qed

theorem onError_hooks_before_processedFiles_increment_witness:
  "HooksExecuted OnError (Some (js ''a.ts''))
     \<lparr>totalFiles = 1, processedFiles = 0, successfulFiles = 0, failedFiles = 1,
      modifiedFiles = 0, errorCount = 1, startTime = 0, endTime = None\<rparr>
     [HookSkipped (js ''notify'')]
     \<in> set (outcomeEvents (startBatchProcessing (exampleEnv [exampleOnErrorHook] None)
          [exampleFile (js ''a.ts'') False None False])) \<and>
   processedFiles \<lparr>totalFiles = 1, processedFiles = 0, successfulFiles = 0, failedFiles = 1,
      modifiedFiles = 0, errorCount = 1, startTime = 0, endTime = None\<rparr> = 1 - 1"
proof -
  let ?s = "\<lparr>totalFiles = 1, processedFiles = 0, successfulFiles = 0, failedFiles = 1,
      modifiedFiles = 0, errorCount = 1, startTime = 0, endTime = None\<rparr>"
  have e: "HooksExecuted OnError (Some (js ''a.ts'')) ?s [HookSkipped (js ''notify'')]
     \<in> set (outcomeEvents (startBatchProcessing (exampleEnv [exampleOnErrorHook] None)
          [exampleFile (js ''a.ts'') False None False]))"
    using example_condition example_condition_text
    by (simp add: run_defs exampleAgent_runs example_task exampleOnErrorHook_def runHook_def)
  from onError_hooks_before_processedFiles_increment [OF e]
  have "processedFiles ?s = successfulFiles ?s + failedFiles ?s - 1" by blast
  with e show ?thesis by simp
qed

lemma beginBatch_start:
  "processedFiles (stats (stateOf (beginBatch env frs))) = 0"
  by (auto simp: beginBatch_def Let_def appendLogSection_def initialStats_def split: option.splits)

lemma run_until_cancelled:
  assumes "runStarts env (pre @ rest)" "logFilePath env = None \<or> \<not> beforeBatchAppendFails env"
    "\<forall>x\<in>set pre. \<not> cancellationRequested x \<and> \<not> logStepThrows env x"
    "rest = [] \<or> cancellationRequested (hd rest)"
  shows "\<exists>st1. processFiles env 0 (pre @ rest) (stateOf (beginBatch env (pre @ rest))) = Continue st1 \<and>
           processedFiles (stats st1) = int (length pre) \<and>
           invokedLabels (events st1) = map fileLabel pre \<and>
           startBatchProcessing env (pre @ rest) =
             (case completeBatch env st1 of Thrown st \<Rightarrow> RunThrew st | Continue st \<Rightarrow> RunCompleted st)"
proof -
  define st0 where "st0 = stateOf (beginBatch env (pre @ rest))"
  have b: "beginBatch env (pre @ rest) = Continue st0"
    unfolding st0_def using assms(2) by (rule beginBatch_continue)
  have z: "processedFiles (stats st0) = 0" "invokedLabels (events st0) = []"
    unfolding st0_def by (rule beginBatch_start, rule beginBatch_counted(3))
  from processFiles_prefix [OF assms(3), of 0 rest st0] obtain st1 where
    st1: "processFiles env 0 (pre @ rest) st0 = processFiles env (0 + length pre) rest st1"
      "processedFiles (stats st1) = processedFiles (stats st0) + int (length pre)"
      "invokedLabels (events st1) = invokedLabels (events st0) @ map fileLabel pre"
    by blast
  have "processFiles env (0 + length pre) rest st1 = Continue st1"
    using assms(4) by (cases rest) auto
  with st1 have l: "processFiles env 0 (pre @ rest) st0 = Continue st1" by simp
  have "startBatchProcessing env (pre @ rest) =
      (case completeBatch env st1 of Thrown st \<Rightarrow> RunThrew st | Continue st \<Rightarrow> RunCompleted st)"
    using assms(1) by (auto simp: startBatchProcessing_def runStarts_def b l)
  with l st1 z show ?thesis unfolding st0_def by auto
qed

lemma example_facts:
  "runStarts (exampleEnv hs logPath) frs \<longleftrightarrow> frs \<noteq> []"
  "logFilePath (exampleEnv hs logPath) = logPath"
  "\<not> beforeBatchAppendFails (exampleEnv hs logPath)"
  "\<not> afterBatchAppendFails (exampleEnv hs logPath)"
  "\<not> summaryAppendFails (exampleEnv hs logPath)"
  "cancellationRequested (exampleFile label cancelled answer appendFails) = cancelled"
  "fileLabel (exampleFile label cancelled answer appendFails) = label"
  "logStepThrows (exampleEnv hs logPath) (exampleFile label cancelled answer appendFails)
     \<longleftrightarrow> logPath \<noteq> None \<and> appendFails"
  by (simp_all add: runStarts_def exampleEnv_def exampleFile_def logStepThrows_def js_def)

lemma completeBatch_completes:
  assumes "logFilePath env = None \<or> (\<not> afterBatchAppendFails env \<and> \<not> summaryAppendFails env)"
  shows "\<exists>st2. completeBatch env st1 = Continue st2 \<and>
     modifiedFiles (stats st2) =
       (case gitCountAfterBatch env of
          None \<Rightarrow> modifiedFiles (stats st1)
        | Some n \<Rightarrow> if gitAvailable env then n else modifiedFiles (stats st1)) \<and>
     stats st2 = (stats st1)
       \<lparr>modifiedFiles :=
          (case gitCountAfterBatch env of
             None \<Rightarrow> modifiedFiles (stats st1)
           | Some n \<Rightarrow> if gitAvailable env then n else modifiedFiles (stats st1)),
        endTime := Some (endNow env)\<rparr> \<and>
     events st2 = events st1 @ completionSequence env (stats st2)
       (drop (lastHookLogIndex st1) (hookLogs st1 @
          [HookLogStart AfterBatch None (hookNames (filter (\<lambda>hook. hookRunAt hook = AfterBatch) (hooks env))),
           HookLogCompleted AfterBatch None]))"
  using assms
  by (auto simp: completeBatch_def Let_def appendLogSection_def completionSequence_def
      runHooksWithLogging_def refreshModifiedFilesCount_def split: option.splits)

lemma concernedFiles_simps [simp]:
  "concernedFiles [] = []"
  "concernedFiles (e # es) = (case concernedFile e of None \<Rightarrow> [] | Some label \<Rightarrow> [label]) @ concernedFiles es"
  "concernedFiles (a @ b) = concernedFiles a @ concernedFiles b"
  by (simp_all add: concernedFiles_def)

lemma processOneFile_concerned:
  "set (concernedFiles (events (stateOf (processOneFile env i fr st)))) =
     insert (fileLabel fr) (set (concernedFiles (events st)))"
  by (auto simp: processOneFile_def Let_def appendTaskLog_def split: sum.splits option.splits)

lemma processFiles_append:
  assumes "\<forall>x\<in>set pre. \<not> cancellationRequested x \<and> \<not> logStepThrows env x"
  shows "processFiles env i pre st = Continue (stateOf (processFiles env i pre st)) \<and>
         processFiles env i (pre @ rest) st =
           processFiles env (i + length pre) rest (stateOf (processFiles env i pre st)) \<and>
         set (concernedFiles (events (stateOf (processFiles env i pre st)))) =
           set (concernedFiles (events st)) \<union> fileLabel ` set pre"
  using assms
proof (induction pre arbitrary: i st)
  case Nil
  then show ?case by simp
next
  case (Cons fr pre)
  define st1 where "st1 = stateOf (processOneFile env i fr st)"
  have 1: "processOneFile env i fr st = Continue st1"
    unfolding st1_def using Cons.prems by (intro processOneFile_continue) simp
  have c: "set (concernedFiles (events st1)) = insert (fileLabel fr) (set (concernedFiles (events st)))"
    unfolding st1_def by (rule processOneFile_concerned)
  from Cons.prems have p: "\<forall>x\<in>set pre. \<not> cancellationRequested x \<and> \<not> logStepThrows env x"
    and n: "\<not> cancellationRequested fr" by simp_all
  note IH = Cons.IH [OF p, of "Suc i" st1]
  have a: "processFiles env i (fr # pre) st = processFiles env (Suc i) pre st1"
    "processFiles env i ((fr # pre) @ rest) st = processFiles env (Suc i) (pre @ rest) st1"
    using n 1 by simp_all
  show ?case unfolding a using IH c by auto
qed

lemma beginBatch_concerned: "concernedFiles (events (stateOf (beginBatch env frs))) = []"
  by (auto simp: beginBatch_def Let_def appendLogSection_def split: option.splits)

lemma completeBatch_concerned:
  "concernedFiles (events (stateOf (completeBatch env st))) = concernedFiles (events st)"
  by (auto simp: completeBatch_def Let_def appendLogSection_def split: option.splits)

text \<open>
  Claim C6. The selected files are \<open>pre @ f # rest\<close>; cancellation has been requested
  when the iteration of \<open>f\<close> begins and not before, and the run reached that point (no log
  step threw). The token is read at the top of the iteration, before anything is done for the
  file: the loop over all the files ends in the very state in which the loop over \<open>pre\<close>
  alone ends, so no progress report, refresh, hook, task or log block is made for \<open>f\<close> or
  for a file of \<open>rest\<close>. The loop exits with \<open>processedFiles = length pre\<close>; in the
  whole run the agent was invoked for the files of \<open>pre\<close>, each of which ran to completion,
  and for no other, and every event that concerns a file concerns a file of \<open>pre\<close>.
\<close>

theorem cancellation_stops_the_loop:
  assumes "runStarts env (pre @ f # rest)" "logFilePath env = None \<or> \<not> beforeBatchAppendFails env"
    "\<forall>x\<in>set pre. \<not> cancellationRequested x \<and> \<not> logStepThrows env x"
    "cancellationRequested f"
  shows "\<exists>st1 s.
           processFiles env 0 pre (stateOf (beginBatch env (pre @ f # rest))) = Continue st1 \<and>
           processFiles env 0 (pre @ f # rest) (stateOf (beginBatch env (pre @ f # rest))) = Continue st1 \<and>
           processedFiles (stats st1) = int (length pre) \<and>
           finalStats (startBatchProcessing env (pre @ f # rest)) = Some s \<and>
           processedFiles s = int (length pre) \<and>
           invokedLabels (outcomeEvents (startBatchProcessing env (pre @ f # rest))) = map fileLabel pre \<and>
           set (concernedFiles (outcomeEvents (startBatchProcessing env (pre @ f # rest)))) =
             fileLabel ` set pre"
proof -
  define st0 where "st0 = stateOf (beginBatch env (pre @ f # rest))"
  define st1 where "st1 = stateOf (processFiles env 0 pre st0)"
  from processFiles_append [OF assms(3), of 0 st0 "f # rest"] assms(4)
  have l: "processFiles env 0 pre st0 = Continue st1"
    "processFiles env 0 (pre @ f # rest) st0 = Continue st1"
    "set (concernedFiles (events st1)) = set (concernedFiles (events st0)) \<union> fileLabel ` set pre"
    unfolding st1_def by simp_all
  from run_until_cancelled [OF assms(1-3), simplified, OF assms(4)] obtain st1' where
    st1': "processFiles env 0 (pre @ f # rest) (stateOf (beginBatch env (pre @ f # rest))) = Continue st1'"
      "processedFiles (stats st1') = int (length pre)" "invokedLabels (events st1') = map fileLabel pre"
      "startBatchProcessing env (pre @ f # rest) =
         (case completeBatch env st1' of Thrown st \<Rightarrow> RunThrew st | Continue st \<Rightarrow> RunCompleted st)"
    by blast
  from st1'(1) l(2) have e: "st1' = st1" unfolding st0_def by simp
  note st1 = st1'(2-4) [unfolded e]
  have o: "finalStats (startBatchProcessing env (pre @ f # rest)) = Some (stats (stateOf (completeBatch env st1)))"
    "outcomeEvents (startBatchProcessing env (pre @ f # rest)) = events (stateOf (completeBatch env st1))"
    unfolding st1(3) by (cases "completeBatch env st1"; simp)+
  have c: "set (concernedFiles (events (stateOf (completeBatch env st1)))) = fileLabel ` set pre"
    unfolding completeBatch_concerned l(3) st0_def beginBatch_concerned by simp
  show ?thesis
    unfolding o st0_def [symmetric]
    using l(1,2) st1(1,2) c completeBatch_kept [of env st1]
    by (intro exI [of _ st1] exI [of _ "stats (stateOf (completeBatch env st1))"]) simp
qed


theorem cancellation_stops_the_loop_witness:
  "runStarts (exampleEnv [] (Some (js ''batch.log'')))
     [exampleFile (js ''a.ts'') False (Some Completed) False,
      exampleFile (js ''b.ts'') True (Some Completed) False,
      exampleFile (js ''c.ts'') False (Some Completed) False] \<and>
   \<not> cancellationRequested (exampleFile (js ''a.ts'') False (Some Completed) False) \<and>
   cancellationRequested (exampleFile (js ''b.ts'') True (Some Completed) False) \<and>
   processFiles (exampleEnv [] (Some (js ''batch.log''))) 0
     [exampleFile (js ''a.ts'') False (Some Completed) False,
      exampleFile (js ''b.ts'') True (Some Completed) False,
      exampleFile (js ''c.ts'') False (Some Completed) False]
     (stateOf (beginBatch (exampleEnv [] (Some (js ''batch.log'')))
        [exampleFile (js ''a.ts'') False (Some Completed) False,
         exampleFile (js ''b.ts'') True (Some Completed) False,
         exampleFile (js ''c.ts'') False (Some Completed) False])) =
   processFiles (exampleEnv [] (Some (js ''batch.log''))) 0
     [exampleFile (js ''a.ts'') False (Some Completed) False]
     (stateOf (beginBatch (exampleEnv [] (Some (js ''batch.log'')))
        [exampleFile (js ''a.ts'') False (Some Completed) False,
         exampleFile (js ''b.ts'') True (Some Completed) False,
         exampleFile (js ''c.ts'') False (Some Completed) False])) \<and>
   invokedLabels (outcomeEvents (startBatchProcessing (exampleEnv [] (Some (js ''batch.log'')))
     [exampleFile (js ''a.ts'') False (Some Completed) False,
      exampleFile (js ''b.ts'') True (Some Completed) False,
      exampleFile (js ''c.ts'') False (Some Completed) False])) = [js ''a.ts''] \<and>
   set (concernedFiles (outcomeEvents (startBatchProcessing (exampleEnv [] (Some (js ''batch.log'')))
     [exampleFile (js ''a.ts'') False (Some Completed) False,
      exampleFile (js ''b.ts'') True (Some Completed) False,
      exampleFile (js ''c.ts'') False (Some Completed) False]))) = {js ''a.ts''} \<and>
   js ''b.ts'' \<notin> set (concernedFiles (outcomeEvents (startBatchProcessing (exampleEnv [] (Some (js ''batch.log'')))
     [exampleFile (js ''a.ts'') False (Some Completed) False,
      exampleFile (js ''b.ts'') True (Some Completed) False,
      exampleFile (js ''c.ts'') False (Some Completed) False]))) \<and>
   (\<exists>s. finalStats (startBatchProcessing (exampleEnv [] (Some (js ''batch.log'')))
     [exampleFile (js ''a.ts'') False (Some Completed) False,
      exampleFile (js ''b.ts'') True (Some Completed) False,
      exampleFile (js ''c.ts'') False (Some Completed) False]) = Some s \<and> processedFiles s = 1)"
proof -
  let ?env = "exampleEnv [] (Some (js ''batch.log''))"
  let ?a = "exampleFile (js ''a.ts'') False (Some Completed) False"
  let ?b = "exampleFile (js ''b.ts'') True (Some Completed) False"
  let ?c = "exampleFile (js ''c.ts'') False (Some Completed) False"
  let ?run = "startBatchProcessing ?env [?a, ?b, ?c]"
  let ?st0 = "stateOf (beginBatch ?env [?a, ?b, ?c])"
  have h1: "runStarts ?env [?a, ?b, ?c]" by (simp add: example_facts)
  have h2: "logFilePath ?env = None \<or> \<not> beforeBatchAppendFails ?env" by (simp add: example_facts)
  have h3: "\<forall>x\<in>set [?a]. \<not> cancellationRequested x \<and> \<not> logStepThrows ?env x"
    by (simp add: example_facts)
  have h3': "\<not> cancellationRequested ?a" by (simp add: example_facts)
  have h4: "cancellationRequested ?b" by (simp add: example_facts)
  note t = cancellation_stops_the_loop [of ?env "[?a]" ?b "[?c]", unfolded append.simps]
  from t [OF h1 h2 h3 h4] obtain st1 s where
    w: "processFiles ?env 0 [?a] ?st0 = Continue st1 \<and>
        processFiles ?env 0 [?a, ?b, ?c] ?st0 = Continue st1 \<and>
        processedFiles (stats st1) = int (length [?a]) \<and>
        finalStats ?run = Some s \<and>
        processedFiles s = int (length [?a]) \<and>
        invokedLabels (outcomeEvents ?run) = map fileLabel [?a] \<and>
        set (concernedFiles (outcomeEvents ?run)) = fileLabel ` set [?a]"
    by (elim exE) (rule that, assumption)
  have m: "map fileLabel [?a] = [js ''a.ts'']" "int (length [?a]) = 1"
    "fileLabel ` set [?a] = {js ''a.ts''}" "js ''b.ts'' \<noteq> js ''a.ts''"
    by (simp_all add: example_facts js_def)
  from w have eq: "processFiles ?env 0 [?a, ?b, ?c] ?st0 = processFiles ?env 0 [?a] ?st0" by simp
  from w m have i: "invokedLabels (outcomeEvents ?run) = [js ''a.ts'']" by simp
  from w m have c: "set (concernedFiles (outcomeEvents ?run)) = {js ''a.ts''}" by simp
  with m have n: "js ''b.ts'' \<notin> set (concernedFiles (outcomeEvents ?run))" by simp
  from w m have f: "\<exists>s. finalStats ?run = Some s \<and> processedFiles s = 1" by auto
  from h1 h3' h4 eq i c n f show ?thesis by (intro conjI)
qed

lemma exampleGitEnv_facts:
  "runStarts exampleGitEnv frs \<longleftrightarrow> frs \<noteq> []"
  "logFilePath exampleGitEnv = Some (js ''batch.log'')"
  "\<not> beforeBatchAppendFails exampleGitEnv"
  "\<not> afterBatchAppendFails exampleGitEnv"
  "\<not> summaryAppendFails exampleGitEnv"
  "gitAvailable exampleGitEnv"
  "gitCountAfterBatch exampleGitEnv = Some 7"
  "endNow exampleGitEnv = 1000"
  "logStepThrows exampleGitEnv (exampleFile label cancelled answer appendFails) \<longleftrightarrow> appendFails"
  by (simp_all add: runStarts_def exampleGitEnv_def exampleEnv_def exampleFile_def logStepThrows_def
      js_def)

lemma example_afterBatch_condition:
  "evaluateCondition (js ''modifiedFiles >= 5'')
     \<lparr>totalFiles = t, processedFiles = p, successfulFiles = s, failedFiles = f,
      modifiedFiles = 7, errorCount = e, startTime = b, endTime = d\<rparr>"
  "js ''modifiedFiles >= 5'' \<noteq> []"
  "\<not> startsWith (js ''git commit -am batch'') (js ''vscode:'')"
  "js ''commit'' \<noteq> []"
  "js ''Cline Hook: '' @ js ''commit'' = js ''Cline Hook: commit''"
  by (simp_all add: evaluator_defs)

text \<open>
  Claim C10. A run whose loop was left through cancellation performs the completion
  sequence of any other run. The selected files are \<open>pre @ rest\<close>, where either
  \<open>rest\<close> is empty (the loop ran out of files) or cancellation is requested when the first
  file of \<open>rest\<close> is reached; in both cases, when no log step throws, the run completes.
  Its final statistics are those the loop ended with, except that \<open>endTime\<close> is set and
  \<open>modifiedFiles\<close> is refreshed: it is the count git reports after the loop, when git is
  available and reports one, and the count the loop ended with otherwise. The events after
  the loop are the \<^verbatim>\<open>afterBatch\<close> hooks, run against these final statistics, the
  hook block and the summary block (when a log file exists), and the notification of the
  dashboard with the final statistics.
\<close>

theorem completion_after_cancellation:
  assumes "runStarts env (pre @ rest)"
    "logFilePath env = None \<or>
     (\<not> beforeBatchAppendFails env \<and> \<not> afterBatchAppendFails env \<and> \<not> summaryAppendFails env)"
    "\<forall>x\<in>set pre. \<not> cancellationRequested x \<and> \<not> logStepThrows env x"
    "rest = [] \<or> cancellationRequested (hd rest)"
  shows "\<exists>st1 st2.
     processFiles env 0 (pre @ rest) (stateOf (beginBatch env (pre @ rest))) = Continue st1 \<and>
     startBatchProcessing env (pre @ rest) = RunCompleted st2 \<and>
     processedFiles (stats st2) = int (length pre) \<and>
     endTime (stats st2) = Some (endNow env) \<and>
     modifiedFiles (stats st2) =
       (case gitCountAfterBatch env of
          None \<Rightarrow> modifiedFiles (stats st1)
        | Some n \<Rightarrow> if gitAvailable env then n else modifiedFiles (stats st1)) \<and>
     stats st2 = (stats st1)
       \<lparr>modifiedFiles :=
          (case gitCountAfterBatch env of
             None \<Rightarrow> modifiedFiles (stats st1)
           | Some n \<Rightarrow> if gitAvailable env then n else modifiedFiles (stats st1)),
        endTime := Some (endNow env)\<rparr> \<and>
     events st2 = events st1 @ completionSequence env (stats st2)
       (drop (lastHookLogIndex st1) (hookLogs st1 @
          [HookLogStart AfterBatch None (hookNames (filter (\<lambda>hook. hookRunAt hook = AfterBatch) (hooks env))),
           HookLogCompleted AfterBatch None]))"
proof -
  have a: "logFilePath env = None \<or> \<not> beforeBatchAppendFails env"
    and c: "logFilePath env = None \<or> (\<not> afterBatchAppendFails env \<and> \<not> summaryAppendFails env)"
    using assms(2) by auto
  from run_until_cancelled [OF assms(1) a assms(3,4)] obtain st1 where
    st1: "processFiles env 0 (pre @ rest) (stateOf (beginBatch env (pre @ rest))) = Continue st1"
      "processedFiles (stats st1) = int (length pre)"
      "startBatchProcessing env (pre @ rest) =
         (case completeBatch env st1 of Thrown st \<Rightarrow> RunThrew st | Continue st \<Rightarrow> RunCompleted st)"
    by blast
  from completeBatch_completes [OF c, of st1] obtain st2 where
    st2: "completeBatch env st1 = Continue st2"
      "modifiedFiles (stats st2) =
       (case gitCountAfterBatch env of
          None \<Rightarrow> modifiedFiles (stats st1)
        | Some n \<Rightarrow> if gitAvailable env then n else modifiedFiles (stats st1))"
      "stats st2 = (stats st1)
       \<lparr>modifiedFiles :=
          (case gitCountAfterBatch env of
             None \<Rightarrow> modifiedFiles (stats st1)
           | Some n \<Rightarrow> if gitAvailable env then n else modifiedFiles (stats st1)),
        endTime := Some (endNow env)\<rparr>"
      "events st2 = events st1 @ completionSequence env (stats st2)
       (drop (lastHookLogIndex st1) (hookLogs st1 @
          [HookLogStart AfterBatch None (hookNames (filter (\<lambda>hook. hookRunAt hook = AfterBatch) (hooks env))),
           HookLogCompleted AfterBatch None]))"
    by (elim exE conjE) (rule that)
  have p: "processedFiles (stats st2) = int (length pre)" "endTime (stats st2) = Some (endNow env)"
    by (subst st2(3), simp add: st1(2))+
  from st1(3) st2(1) have r: "startBatchProcessing env (pre @ rest) = RunCompleted st2" by simp
  from st1(1) r p st2(2,3,4) show ?thesis
    by (intro exI [of _ st1] exI [of _ st2] conjI)
qed


theorem completion_after_cancellation_witness:
  "runStarts exampleGitEnv
     ([exampleFile (js ''a.ts'') False (Some Completed) False] @
      [exampleFile (js ''b.ts'') True (Some Completed) False]) \<and>
   cancellationRequested (hd [exampleFile (js ''b.ts'') True (Some Completed) False]) \<and>
   gitAvailable exampleGitEnv \<and> gitCountAfterBatch exampleGitEnv = Some 7 \<and>
   finalStats (startBatchProcessing exampleGitEnv
     ([exampleFile (js ''a.ts'') False (Some Completed) False] @
      [exampleFile (js ''b.ts'') True (Some Completed) False])) =
     Some \<lparr>totalFiles = 2, processedFiles = 1, successfulFiles = 1, failedFiles = 0,
       modifiedFiles = 7, errorCount = 0, startTime = 0, endTime = Some 1000\<rparr> \<and>
   (\<exists>es. outcomeEvents (startBatchProcessing exampleGitEnv
     ([exampleFile (js ''a.ts'') False (Some Completed) False] @
      [exampleFile (js ''b.ts'') True (Some Completed) False])) =
     es @
     [HooksExecuted AfterBatch None
        \<lparr>totalFiles = 2, processedFiles = 1, successfulFiles = 1, failedFiles = 0,
         modifiedFiles = 7, errorCount = 0, startTime = 0, endTime = Some 1000\<rparr>
        [ShellCommandSent (js ''Cline Hook: commit'') (js ''git commit -am batch'')],
      LogAppended (HookRunBlock (js ''afterBatch'')
        [HookLogStart AfterBatch None (js ''commit''), HookLogCompleted AfterBatch None]),
      LogAppended (SummaryBlock
        \<lparr>totalFiles = 2, processedFiles = 1, successfulFiles = 1, failedFiles = 0,
         modifiedFiles = 7, errorCount = 0, startTime = 0, endTime = Some 1000\<rparr>),
      DashboardNotified
        \<lparr>totalFiles = 2, processedFiles = 1, successfulFiles = 1, failedFiles = 0,
         modifiedFiles = 7, errorCount = 0, startTime = 0, endTime = Some 1000\<rparr>])"
proof -
  let ?env = "exampleGitEnv"
  let ?pre = "[exampleFile (js ''a.ts'') False (Some Completed) False]"
  let ?rest = "[exampleFile (js ''b.ts'') True (Some Completed) False]"
  let ?run = "startBatchProcessing ?env (?pre @ ?rest)"
  let ?s = "\<lparr>totalFiles = 2, processedFiles = 1, successfulFiles = 1, failedFiles = 0,
       modifiedFiles = 7, errorCount = 0, startTime = 0, endTime = Some 1000\<rparr>"
  have h: "runStarts ?env (?pre @ ?rest)" "cancellationRequested (hd ?rest)"
    by (simp_all add: exampleGitEnv_facts example_facts)
  have g: "gitAvailable ?env" "gitCountAfterBatch ?env = Some 7" by (simp_all add: exampleGitEnv_facts)
  have h2: "logFilePath ?env = None \<or>
     (\<not> beforeBatchAppendFails ?env \<and> \<not> afterBatchAppendFails ?env \<and> \<not> summaryAppendFails ?env)"
    by (simp add: exampleGitEnv_facts)
  have h3: "\<forall>x\<in>set ?pre. \<not> cancellationRequested x \<and> \<not> logStepThrows ?env x"
    by (simp add: exampleGitEnv_facts example_facts)
  from completion_after_cancellation [OF h(1) h2 h3 disjI2 [OF h(2)]] obtain st1 st2 where
    w: "processFiles ?env 0 (?pre @ ?rest) (stateOf (beginBatch ?env (?pre @ ?rest))) = Continue st1"
      "startBatchProcessing ?env (?pre @ ?rest) = RunCompleted st2"
      "processedFiles (stats st2) = int (length ?pre)"
      "endTime (stats st2) = Some (endNow ?env)"
      "modifiedFiles (stats st2) =
       (case gitCountAfterBatch ?env of
          None \<Rightarrow> modifiedFiles (stats st1)
        | Some n \<Rightarrow> if gitAvailable ?env then n else modifiedFiles (stats st1))"
    by (elim exE conjE) (rule that)
  from w(5) have m: "modifiedFiles (stats st2) = 7" by (simp add: g)
  have f: "finalStats ?run = Some ?s"
    by (simp add: run_defs exampleGitEnv_def exampleAfterBatchHook_def runHook_def
        example_afterBatch_condition exampleAgent_runs example_task)
  with w(2) have s: "stats st2 = ?s" by simp
  have ev: "outcomeEvents ?run = take 7 (outcomeEvents ?run) @
     [HooksExecuted AfterBatch None ?s
        [ShellCommandSent (js ''Cline Hook: commit'') (js ''git commit -am batch'')],
      LogAppended (HookRunBlock (js ''afterBatch'')
        [HookLogStart AfterBatch None (js ''commit''), HookLogCompleted AfterBatch None]),
      LogAppended (SummaryBlock ?s), DashboardNotified ?s]"
    by (simp add: run_defs exampleGitEnv_def exampleAfterBatchHook_def runHook_def
        example_afterBatch_condition exampleAgent_runs example_task)
  have e: "\<exists>es. outcomeEvents ?run = es @
     [HooksExecuted AfterBatch None ?s
        [ShellCommandSent (js ''Cline Hook: commit'') (js ''git commit -am batch'')],
      LogAppended (HookRunBlock (js ''afterBatch'')
        [HookLogStart AfterBatch None (js ''commit''), HookLogCompleted AfterBatch None]),
      LogAppended (SummaryBlock ?s), DashboardNotified ?s]"
    by (rule exI [of _ "take 7 (outcomeEvents ?run)"]) (rule ev)
  from w(2) s m have f': "finalStats ?run = Some ?s" by simp
  from h g f' e show ?thesis by (intro conjI)
qed

text \<open>
  Claim C5. If the agent accepts the task and answers \<^verbatim>\<open>active\<close> to each of the 120
  status requests that fit into the wait budget, \<^verbatim>\<open>processFileWithCline\<close> returns
  (its last console line is the timeout warning), the orchestrator counts the file as
  successful, and unless the log step of the file throws it goes on with the next file.
  \<^verbatim>\<open>processFileWithCline\<close> throws only when \<^verbatim>\<open>startNewTask\<close>,
  \<^verbatim>\<open>pressPrimaryButton\<close> or \<^verbatim>\<open>getTaskStatus\<close> throws.
\<close>

theorem timeout_returns_successfully:
  assumes "\<not> startNewTaskThrows (agent f)" "\<not> pressPrimaryButtonThrows (agent f)"
    "\<forall>k<120. statusAt (agent f) k = Some Active"
  shows "processFileWithCline (agent f) =
           Inr (map (\<lambda>k. TaskStillActive (5 * k)) [0..<120] @ [TaskTimeoutReached]) \<and>
         successfulFiles (stats (stateOf (processOneFile env i f st))) = successfulFiles (stats st) + 1 \<and>
         failedFiles (stats (stateOf (processOneFile env i f st))) = failedFiles (stats st) \<and>
         processedFiles (stats (stateOf (processOneFile env i f st))) = processedFiles (stats st) + 1 \<and>
         (\<not> cancellationRequested f \<and> \<not> logStepThrows env f \<longrightarrow>
            processFiles env i (f # fs) st =
              processFiles env (i + 1) fs (stateOf (processOneFile env i f st))) \<and>
         (\<forall>cline e. processFileWithCline cline = Inl e \<longrightarrow>
            startNewTaskThrows cline \<or> pressPrimaryButtonThrows cline \<or>
            (\<exists>k<120. statusAt cline k = None))"
proof -
  have r: "processFileWithCline (agent f) =
           Inr (map (\<lambda>k. TaskStillActive (5 * k)) [0..<120] @ [TaskTimeoutReached])"
    using assms by (rule processFileWithCline_timeout)
  have n: "processFiles env i (f # fs) st =
              processFiles env (i + 1) fs (stateOf (processOneFile env i f st))"
    if "\<not> cancellationRequested f" "\<not> logStepThrows env f"
  proof -
    define st1 where "st1 = stateOf (processOneFile env i f st)"
    have "processOneFile env i f st = Continue st1"
      unfolding st1_def using that(2) by (rule processOneFile_continue)
    with that(1) show ?thesis unfolding st1_def [symmetric] by simp
  qed
  show ?thesis
    using r n processOneFile_success [OF r, of env i st] processOneFile_processed [of env i f st]
      processFileWithCline_error
    by blast
qed

theorem timeout_returns_successfully_witness:
  "\<not> startNewTaskThrows (agent (exampleFile (js ''a.ts'') False (Some Active) False)) \<and>
   \<not> pressPrimaryButtonThrows (agent (exampleFile (js ''a.ts'') False (Some Active) False)) \<and>
   statusAt (agent (exampleFile (js ''a.ts'') False (Some Active) False)) 119 = Some Active \<and>
   processFileWithCline (agent (exampleFile (js ''a.ts'') False (Some Active) False)) =
     Inr (map (\<lambda>k. TaskStillActive (5 * k)) [0..<120] @ [TaskTimeoutReached]) \<and>
   finalStats (startBatchProcessing (exampleEnv [] None)
      [exampleFile (js ''a.ts'') False (Some Active) False,
       exampleFile (js ''b.ts'') False (Some Completed) False]) =
     Some \<lparr>totalFiles = 2, processedFiles = 2, successfulFiles = 2, failedFiles = 0,
       modifiedFiles = 0, errorCount = 0, startTime = 0, endTime = Some 1000\<rparr> \<and>
   invokedLabels (outcomeEvents (startBatchProcessing (exampleEnv [] None)
      [exampleFile (js ''a.ts'') False (Some Active) False,
       exampleFile (js ''b.ts'') False (Some Completed) False])) = [js ''a.ts'', js ''b.ts'']"
proof -
  let ?f = "exampleFile (js ''a.ts'') False (Some Active) False"
  have h: "\<not> startNewTaskThrows (agent ?f)" "\<not> pressPrimaryButtonThrows (agent ?f)"
    "\<forall>k<120. statusAt (agent ?f) k = Some Active"
    by (simp_all add: exampleFile_def exampleAgent_def)
  have a: "agent ?f = exampleAgent (Some Active)" by (simp add: exampleFile_def)
  from timeout_returns_successfully [OF h]
  have r: "processFileWithCline (agent ?f) =
     Inr (map (\<lambda>k. TaskStillActive (5 * k)) [0..<120] @ [TaskTimeoutReached])"
    by (rule conjunct1)
  note r' = r [unfolded a]
  have s: "finalStats (startBatchProcessing (exampleEnv [] None)
      [?f, exampleFile (js ''b.ts'') False (Some Completed) False]) =
     Some \<lparr>totalFiles = 2, processedFiles = 2, successfulFiles = 2, failedFiles = 0,
       modifiedFiles = 0, errorCount = 0, startTime = 0, endTime = Some 1000\<rparr>"
    by (simp add: run_defs exampleAgent_runs example_task r' del: upt_conv_Cons map_append)
  have l: "invokedLabels (outcomeEvents (startBatchProcessing (exampleEnv [] None)
      [?f, exampleFile (js ''b.ts'') False (Some Completed) False])) = [js ''a.ts'', js ''b.ts'']"
    by (simp add: run_defs exampleAgent_runs example_task r' invokedLabels_append)
  from h(1,2) h(3) [rule_format, of 119] r s l show ?thesis by simp
qed

lemma processFiles_no_throw:
  assumes "\<forall>x\<in>set frs. \<not> logStepThrows env x"
  shows "\<exists>st'. processFiles env i frs st = Continue st'"
  using assms
proof (induction frs arbitrary: i st)
  case Nil
  then show ?case by simp
next
  case (Cons fr frs)
  define st1 where "st1 = stateOf (processOneFile env i fr st)"
  have "processOneFile env i fr st = Continue st1"
    unfolding st1_def using Cons.prems by (intro processOneFile_continue) simp
  moreover from Cons.prems have "\<forall>x\<in>set frs. \<not> logStepThrows env x" by simp
  from Cons.IH [OF this, of "i + 1" st1] obtain st' where
    "processFiles env (i + 1) frs st1 = Continue st'" by blast
  ultimately show ?case by (cases "cancellationRequested fr") simp_all
qed

lemma run_without_log_file_completes:
  assumes "runStarts env frs" "logFilePath env = None"
  shows "\<exists>st. startBatchProcessing env frs = RunCompleted st"
proof -
  define st0 where "st0 = stateOf (beginBatch env frs)"
  have b: "beginBatch env frs = Continue st0"
    unfolding st0_def using assms(2) by (intro beginBatch_continue) simp
  have "\<forall>x\<in>set frs. \<not> logStepThrows env x" using assms(2) by (simp add: logStepThrows_def)
  from processFiles_no_throw [OF this, of 0 st0] obtain st1 where
    l: "processFiles env 0 frs st0 = Continue st1" by blast
  from completeBatch_completes [of env st1] assms(2) obtain st2 where
    c: "completeBatch env st1 = Continue st2" by blast
  show ?thesis using assms(1) by (auto simp: startBatchProcessing_def runStarts_def b l c)
qed

text \<open>
  Claim C3 says that no error aborts a run once the per-file loop has started. The calls
  \<^verbatim>\<open>getTaskMessages\<close> and \<^verbatim>\<open>appendLogSection\<close> at the end of an iteration are
  not guarded: in a run over two files with a log file, when appending the task block of the
  first file fails, the run ends with that exception; the second file is never processed, the
  \<^verbatim>\<open>afterBatch\<close> hooks do not run and \<open>endTime\<close> is never set.
\<close>

theorem log_append_failure_ends_run:
  "isRunThrew (startBatchProcessing (exampleEnv [] (Some (js ''batch.log'')))
      [exampleFile (js ''a.ts'') False (Some Completed) True,
       exampleFile (js ''b.ts'') False (Some Completed) False]) \<and>
   invokedLabels (outcomeEvents (startBatchProcessing (exampleEnv [] (Some (js ''batch.log'')))
      [exampleFile (js ''a.ts'') False (Some Completed) True,
       exampleFile (js ''b.ts'') False (Some Completed) False])) = [js ''a.ts''] \<and>
   finalStats (startBatchProcessing (exampleEnv [] (Some (js ''batch.log'')))
      [exampleFile (js ''a.ts'') False (Some Completed) True,
       exampleFile (js ''b.ts'') False (Some Completed) False]) =
     Some \<lparr>totalFiles = 2, processedFiles = 1, successfulFiles = 1, failedFiles = 0,
       modifiedFiles = 0, errorCount = 0, startTime = 0, endTime = None\<rparr>"
  by (simp add: run_defs exampleAgent_runs example_task invokedLabels_append)

section \<open>Properties of the task description and of the file selection\<close>

lemma everyString_strings: "everyString (map JString items) = Some items"
  by (induction items) simp_all

lemma numberedFrom_enumerate:
  "map (\<lambda>(index, item). decimalDigits (index + 1) @ js ''. '' @ item) (enumerate k items) =
     numberedFrom (k + 1) items"
  by (induction items arbitrary: k) simp_all

text \<open>
  Claim C7, as stated: the task intent of a structured document with summary \<open>S\<close> is
  \<open>S\<close>, a blank line, the label \<^verbatim>\<open>Details:\<close> and the numbered items. It is not: the
  label in the source is U+8A73 U+7D30 followed by a colon, and the summary is trimmed.
\<close>

theorem task_intent_label_counterexample:
  "getTaskDescription (structuredDocument (js ''a'') [js ''b''] None) \<noteq>
     Some (js ''a'' @ [10, 10] @ js ''Details:'' @ [10] @ js ''1. b'') \<and>
   getTaskDescription (structuredDocument (js '' a'') [js ''b''] None) \<noteq>
     Some (js '' a'' @ [10, 10] @ detailsLabel @ [10] @ js ''1. b'')"
  by (simp add: getTaskDescription_def structuredDocument_def loadTaskConfig_def combinedTask_def
      detailsLabel_def js_def trim_def isWhiteSpace_def enumerate_eq_zip decimalDigits.simps)

text \<open>
  Claim C7, amended. For every structured document with a non-empty summary \<open>S\<close> and items
  \<open>i1, i2, ...\<close> (and any file patterns), the task intent is the single string made of
  \<open>S\<close> trimmed, a blank line, the label U+8A73 U+7D30 and a colon, a line break, and the
  items, each trimmed, numbered from 1, one per line. A document with an empty summary gives no
  task intent.
\<close>

theorem task_intent_from_document:
  "getTaskDescription (structuredDocument summary items patterns) =
     (if summary = [] then None
      else Some (trim summary @ [10, 10] @ detailsLabel @ [10] @
                 join [10] (numberedFrom 1 (map trim items))))"
  using numberedFrom_enumerate [of 0 "map trim items"]
  by (cases patterns)
    (simp_all add: getTaskDescription_def structuredDocument_def loadTaskConfig_def combinedTask_def
      everyString_strings)

theorem task_intent_from_document_witness:
  "getTaskDescription (structuredDocument (js '' add comments'')
      [js ''to classes '', js ''to functions''] (Some [js ''*.ts''])) =
     Some (js ''add comments'' @ [10, 10] @ [0x8A73, 0x7D30, 0x3A] @ [10] @
           js ''1. to classes'' @ [10] @ js ''2. to functions'') \<and>
   getTaskDescription (structuredDocument [] [js ''to classes''] None) = None"
proof -
  have n: "js '' add comments'' \<noteq> []" by (simp add: js_def)
  have t: "trim (js '' add comments'') = js ''add comments''"
    "map trim [js ''to classes '', js ''to functions''] = [js ''to classes'', js ''to functions'']"
    by (simp_all add: js_def trim_def isWhiteSpace_def)
  have d: "decimalDigits (Suc 0) = [49]" "decimalDigits (Suc (Suc 0)) = [50]"
    by (simp_all add: decimalDigits.simps)
  have "trim (js '' add comments'') @ [10, 10] @ detailsLabel @ [10] @
      join [10] (numberedFrom 1 (map trim [js ''to classes '', js ''to functions''])) =
      js ''add comments'' @ [10, 10] @ [0x8A73, 0x7D30, 0x3A] @ [10] @
           js ''1. to classes'' @ [10] @ js ''2. to functions''"
    unfolding t by (simp add: detailsLabel_def d) (simp add: js_def)
  with task_intent_from_document [of "js '' add comments''" "[js ''to classes '', js ''to functions'']"
      "Some [js ''*.ts'']"]
    task_intent_from_document [of "[]" "[js ''to classes'']" None] n
  show ?thesis by simp
qed

lemma startsWith_iff: "startsWith p q \<longleftrightarrow> (\<exists>r. p = q @ r)"
  unfolding startsWith_def
  by (metis append_eq_conv_conj append_take_drop_id)

lemma startsWith_append_left: "startsWith p (q @ r) \<Longrightarrow> startsWith p q"
  by (auto simp: startsWith_iff)




















end
